theory Spec2Isabelle
  imports Main "HOL-Library.List_Lexorder" "HOL-Library.Char_ord"
begin

section \<open>The source-control change tree of \<open>scm-tree-widget.tsx\<close>\<close>

text \<open>
  The widget turns the resource groups of a source-control provider into a tree
  (root, group nodes, folder nodes, file nodes), keeps expansion and selection flags
  across rebuilds by looking the previous node up under its id, and moves a cursor over
  the file nodes. This theory embeds \<open>createTree\<close>, \<open>toGroupNode\<close>,
  \<open>buildFileChangeTree\<close>, \<open>doCompareNodes\<close>, \<open>toFileChangeFolderNode\<close>,
  \<open>toFileChangeNode\<close>, \<open>moveToNextFileNode\<close>, \<open>moveToPreviousFileNode\<close>,
  \<open>openResource\<close>, \<open>getResourceFromNode\<close>, \<open>handleLeft\<close>, \<open>handleRight\<close>,
  \<open>storeState\<close> and \<open>restoreState\<close>.
\<close>

subsection \<open>Resources, groups and providers\<close>

record ScmResourceDecorations =
  color :: "string option"
  letter :: "string option"
  tooltip :: "string option"

text \<open>
  A resource carries a URI object; the code reads it as \<open>String(resource.sourceUri)\<close>
  and as \<open>resource.sourceUri.path.toString()\<close>. \<open>resourceGroupId\<close> is
  \<open>resource.group.id\<close>.
\<close>

record ScmResource =
  sourceUri :: string
  sourceUriPath :: string
  decorations :: "ScmResourceDecorations option"
  resourceGroupId :: string

text \<open>\<open>groupProviderRootUri\<close> is \<open>group.provider.rootUri\<close>, \<open>None\<close> for \<open>undefined\<close>.\<close>

record ScmResourceGroup =
  groupId :: string
  hideWhenEmpty :: bool
  resources :: "ScmResource list"
  groupProviderRootUri :: "string option"

record ScmProvider =
  rootUri :: "string option"
  groups :: "ScmResourceGroup list"

subsection \<open>Tree nodes\<close>

text \<open>
  The \<open>parent\<close> reference of a node is its position in the tree and is not stored again.
  A file node has no \<open>groupId\<close>, \<open>path\<close> or \<open>children\<close> property, which is how
  \<open>FileChangeFolderNode.is\<close> tells the two apart.
\<close>

datatype change_node =
    FileChangeNode
      (node_id: string) (node_sourceUri: string)
      (node_decorations: "ScmResourceDecorations option") (node_selected: bool)
  | FileChangeFolderNode
      (node_id: string) (node_groupId: string) (node_path: string) (node_sourceUri: string)
      (node_children: "change_node list") (node_expanded: bool) (node_selected: bool)

record FileChangeGroupNode =
  groupNodeId :: string
  groupNodeGroupId :: string
  groupNodeChildren :: "change_node list"
  groupNodeExpanded :: bool

record FileChangeGroupRoot =
  rootNodeId :: string
  rootNodeRootUri :: "string option"
  rootNodeChildren :: "FileChangeGroupNode list"

datatype tree_node =
    RootTreeNode FileChangeGroupRoot
  | GroupTreeNode FileChangeGroupNode
  | ChangeTreeNode change_node

fun FileChangeFolderNode_is :: "change_node \<Rightarrow> bool" where
  "FileChangeFolderNode_is (FileChangeFolderNode i g p u cs e s) = True"
| "FileChangeFolderNode_is (FileChangeNode i u d s) = False"

fun FileChangeNode_is :: "change_node \<Rightarrow> bool" where
  "FileChangeNode_is n = (\<not> FileChangeFolderNode_is n)"

text \<open>
  The type guards of the platform, read off the interface declarations of the source:
  \<open>FileChangeGroupNode extends ExpandableTreeNode\<close>,
  \<open>FileChangeFolderNode extends ExpandableTreeNode, SelectableTreeNode\<close> and
  \<open>FileChangeNode extends SelectableTreeNode\<close>. So \<open>ExpandableTreeNode.is\<close> holds of group
  and folder nodes, \<open>SelectableTreeNode.is\<close> of folder and file nodes, and neither of
  \<open>undefined\<close> or of the root.
\<close>

fun ExpandableTreeNode_is :: "tree_node option \<Rightarrow> bool" where
  "ExpandableTreeNode_is (Some (GroupTreeNode g)) = True"
| "ExpandableTreeNode_is (Some (ChangeTreeNode n)) = FileChangeFolderNode_is n"
| "ExpandableTreeNode_is _ = False"

fun SelectableTreeNode_is :: "tree_node option \<Rightarrow> bool" where
  "SelectableTreeNode_is (Some (ChangeTreeNode n)) = True"
| "SelectableTreeNode_is _ = False"

fun oldNode_expanded :: "tree_node option \<Rightarrow> bool" where
  "oldNode_expanded (Some (GroupTreeNode g)) = groupNodeExpanded g"
| "oldNode_expanded (Some (ChangeTreeNode n)) = node_expanded n"
| "oldNode_expanded _ = False"

fun oldNode_selected :: "tree_node option \<Rightarrow> bool" where
  "oldNode_selected (Some (ChangeTreeNode n)) = node_selected n"
| "oldNode_selected _ = False"

subsection \<open>The widget's surroundings\<close>

datatype expansion = collapsed | expanded

record ScmTreeProps =
  defaultExpansion :: "expansion option"
  nestingThreshold :: "int option"

datatype view_mode = flat | tree

text \<open>
  What the tree builder reads and never writes. The three URI and string operations belong
  to the platform and are parameters: \<open>uri_relative root uri\<close> is
  \<open>new URI(root).relative(uri)\<close> as a string (\<open>None\<close> for \<open>undefined\<close>),
  \<open>uri_resolve parent rel\<close> is \<open>String(new URI(parent).resolve(rel))\<close>, and
  \<open>localeCompare a b\<close> is \<open>a.localeCompare(b)\<close>. \<open>getNode\<close> is
  \<open>this.model.getNode\<close>, the index of the tree that was current before the rebuild.
\<close>

record widget =
  uri_relative :: "string \<Rightarrow> string \<Rightarrow> string option"
  uri_resolve :: "string option \<Rightarrow> string \<Rightarrow> string"
  localeCompare :: "string \<Rightarrow> string \<Rightarrow> int"
  getNode :: "string \<Rightarrow> tree_node option"
  props :: ScmTreeProps
  viewMode :: view_mode

datatype error = TypeError

type_synonym selection = "change_node option"

record resource_path =
  resource :: ScmResource
  pathParts :: "string list"

subsection \<open>JavaScript list and string operations\<close>

text \<open>\<open>xs[i]\<close>: \<open>undefined\<close> out of range.\<close>

definition at_index :: "'a list \<Rightarrow> nat \<Rightarrow> 'a option" where
  "at_index xs i = (if i < length xs then Some (xs ! i) else None)"

text \<open>\<open>xs.slice(from, to)\<close> for indices that are not negative.\<close>

definition slice :: "'a list \<Rightarrow> nat \<Rightarrow> nat \<Rightarrow> 'a list" where
  "slice xs from to = take (to - from) (drop from xs)"

text \<open>\<open>parts.join('/')\<close>.\<close>

fun join_slash :: "string list \<Rightarrow> string" where
  "join_slash [] = []"
| "join_slash [p] = p"
| "join_slash (p # q # ps) = p @ ''/'' @ join_slash (q # ps)"

text \<open>\<open>s.split('/')\<close>: the empty string splits into one empty part.\<close>

fun split_slash :: "string \<Rightarrow> string list" where
  "split_slash [] = [[]]"
| "split_slash (c # cs) =
     (if c = CHR ''/'' then [] # split_slash cs
      else (case split_slash cs of [] \<Rightarrow> [[c]] | w # ws \<Rightarrow> (c # w) # ws))"

text \<open>
  \<open>xs.sort(cmp)\<close>: the sort is stable, so for a consistent comparator the result is the
  one of insertion from the right, each element placed before the first one it does not
  exceed.
\<close>

fun sort_insert :: "('a \<Rightarrow> 'a \<Rightarrow> int) \<Rightarrow> 'a \<Rightarrow> 'a list \<Rightarrow> 'a list" where
  "sort_insert cmp x [] = [x]"
| "sort_insert cmp x (y # ys) =
     (if cmp x y \<le> 0 then x # y # ys else y # sort_insert cmp x ys)"

fun array_sort :: "('a \<Rightarrow> 'a \<Rightarrow> int) \<Rightarrow> 'a list \<Rightarrow> 'a list" where
  "array_sort cmp [] = []"
| "array_sort cmp (x # xs) = sort_insert cmp x (array_sort cmp xs)"

subsection \<open>Building the nodes\<close>

definition doCompareNodes :: "widget \<Rightarrow> change_node \<Rightarrow> change_node \<Rightarrow> int" where
  "doCompareNodes w a b =
     (let isFolderA = FileChangeFolderNode_is a;
          isFolderB = FileChangeFolderNode_is b
      in if isFolderA \<and> \<not> isFolderB then - 1
         else if isFolderB \<and> \<not> isFolderA then 1
         else localeCompare w (node_sourceUri a) (node_sourceUri b))"

text \<open>
  \<open>toFileChangeNode\<close> also writes the selection service when the node is selected, so it
  takes the current selection and returns the new one.
\<close>

definition toFileChangeNode ::
  "widget \<Rightarrow> ScmResource \<Rightarrow> selection \<Rightarrow> change_node \<times> selection" where
  "toFileChangeNode w r sel =
     (let ident = resourceGroupId r @ '':'' @ sourceUri r;
          oldNode = getNode w ident;
          node = FileChangeNode ident (sourceUri r) (decorations r)
                   (SelectableTreeNode_is oldNode \<and> oldNode_selected oldNode)
      in (node, if node_selected node then Some node else sel))"

text \<open>The nodes of \<open>resources.map(r => toFileChangeNode(r, parent))\<close>, left to right.\<close>

fun toFileChangeNodes ::
  "widget \<Rightarrow> ScmResource list \<Rightarrow> selection \<Rightarrow> change_node list \<times> selection" where
  "toFileChangeNodes w [] sel = ([], sel)"
| "toFileChangeNodes w (r # rs) sel =
     (case toFileChangeNode w r sel of (node, sel1) \<Rightarrow>
        (case toFileChangeNodes w rs sel1 of (nodes, sel2) \<Rightarrow> (node # nodes, sel2)))"

text \<open>
  The parent handed to the builders: a group node (with the \<open>rootUri\<close> of the root it
  hangs under) or a folder node.
\<close>

datatype parent_node =
    GroupParent (parent_groupId: string) "string option"
  | FolderParent (parent_groupId: string) string

text \<open>
  \<open>getRoot(parent).rootUri\<close>. The loop of \<open>getRoot\<close> asks for a node that is a group
  node and a folder node at once, which no node is, so \<open>getRoot\<close> returns
  \<open>node.parent\<close>: the root for a group node, and a group or folder node, which has no
  \<open>rootUri\<close>, for a folder node.
\<close>

fun getRoot_rootUri :: "parent_node \<Rightarrow> string option" where
  "getRoot_rootUri (GroupParent g r) = r"
| "getRoot_rootUri (FolderParent g u) = None"

fun parentPath :: "parent_node \<Rightarrow> string option" where
  "parentPath (GroupParent g r) = getRoot_rootUri (GroupParent g r)"
| "parentPath (FolderParent g u) = Some u"

definition nestingThreshold_or_1 :: "widget \<Rightarrow> int" where
  "nestingThreshold_or_1 w =
     (case nestingThreshold (props w) of
        None \<Rightarrow> 1
      | Some t \<Rightarrow> if t = 0 then 1 else t)"

definition defaultExpansion_flag :: "widget \<Rightarrow> bool" where
  "defaultExpansion_flag w =
     (case defaultExpansion (props w) of
        None \<Rightarrow> True
      | Some d \<Rightarrow> d = expanded)"

text \<open>
  The inner loop of \<open>buildFileChangeTree\<close> that finds \<open>folderEnd\<close>: it walks from
  \<open>index\<close> while the segment at \<open>level\<close> equals the first resource's. Reading
  \<open>pathParts\<close> of \<open>resources[index]\<close> beyond the array throws.
\<close>

function folderEnd_loop ::
  "resource_path list \<Rightarrow> nat \<Rightarrow> nat \<Rightarrow> resource_path \<Rightarrow> nat \<Rightarrow> error + nat" where
  "folderEnd_loop rs end level firstFileChange index =
     (if index < end then
        (case at_index rs index of
           None \<Rightarrow> Inl TypeError
         | Some r \<Rightarrow>
             if at_index (pathParts r) level \<noteq> at_index (pathParts firstFileChange) level
             then Inr index
             else folderEnd_loop rs end level firstFileChange (Suc index))
      else Inr index)"
  by pat_completeness auto
termination
  by (relation "measure (\<lambda>(rs, end, level, firstFileChange, index). end - index)") auto

text \<open>The loop that extends \<open>thisLevel\<close> over the segments the first and last file share.\<close>

function thisLevel_loop :: "string list \<Rightarrow> string list \<Rightarrow> nat \<Rightarrow> nat" where
  "thisLevel_loop firstFileParts lastFileParts thisLevel =
     (if int thisLevel < int (length firstFileParts) - 1
         \<and> int thisLevel < int (length lastFileParts) - 1
         \<and> firstFileParts ! thisLevel = lastFileParts ! thisLevel
      then thisLevel_loop firstFileParts lastFileParts (Suc thisLevel)
      else thisLevel)"
  by pat_completeness auto
termination
  by (relation "measure (\<lambda>(firstFileParts, lastFileParts, thisLevel).
        length firstFileParts - thisLevel)") auto

text \<open>The loop that inlines a run: one file node for each index from \<open>i\<close> up to \<open>folderEnd\<close>.\<close>

function inline_loop ::
  "widget \<Rightarrow> resource_path list \<Rightarrow> nat \<Rightarrow> nat \<Rightarrow> change_node list \<Rightarrow> selection
    \<Rightarrow> error + (change_node list \<times> selection)" where
  "inline_loop w rs i folderEnd result sel =
     (if i < folderEnd then
        (case at_index rs i of
           None \<Rightarrow> Inl TypeError
         | Some r \<Rightarrow>
             (case toFileChangeNode w (resource r) sel of (node, sel1) \<Rightarrow>
                inline_loop w rs (Suc i) folderEnd (result @ [node]) sel1))
      else Inr (result, sel))"
  by pat_completeness auto
termination
  by (relation "measure (\<lambda>(w, rs, i, folderEnd, result, sel). folderEnd - i)") auto

text \<open>
  \<open>buildFileChangeTree\<close> and \<open>toFileChangeFolderNode\<close> call each other. The first
  argument bounds the number of nested calls and loop rounds: a run that uses it up
  returns \<open>None\<close>, a run that throws returns \<open>Some (Inl e)\<close>. \<open>build_loop\<close> is the
  outer \<open>while (folderStart < end)\<close> of \<open>buildFileChangeTree\<close>, with \<open>result\<close> as it
  stands.
\<close>

function build_loop ::
    "nat \<Rightarrow> widget \<Rightarrow> resource_path list \<Rightarrow> nat \<Rightarrow> nat \<Rightarrow> nat \<Rightarrow> parent_node
      \<Rightarrow> change_node list \<Rightarrow> selection \<Rightarrow> (error + (change_node list \<times> selection)) option"
  and buildFileChangeTree ::
    "nat \<Rightarrow> widget \<Rightarrow> resource_path list \<Rightarrow> nat \<Rightarrow> nat \<Rightarrow> nat \<Rightarrow> parent_node
      \<Rightarrow> selection \<Rightarrow> (error + (change_node list \<times> selection)) option"
  and toFileChangeFolderNode ::
    "nat \<Rightarrow> widget \<Rightarrow> resource_path list \<Rightarrow> nat \<Rightarrow> nat \<Rightarrow> nat \<Rightarrow> string \<Rightarrow> parent_node
      \<Rightarrow> selection \<Rightarrow> (error + (change_node \<times> selection)) option"
where
  "build_loop 0 w rs folderStart end level parent result sel = None"
| "build_loop (Suc n) w rs folderStart end level parent result sel =
     (if folderStart < end then
        (case at_index rs folderStart of
           None \<Rightarrow> Some (Inl TypeError)
         | Some firstFileChange \<Rightarrow>
             if int level = int (length (pathParts firstFileChange)) - 1 then
               (case toFileChangeNode w (resource firstFileChange) sel of (node, sel1) \<Rightarrow>
                  build_loop n w rs (Suc folderStart) end level parent (result @ [node]) sel1)
             else
               (case folderEnd_loop rs end level firstFileChange (folderStart + 1) of
                  Inl e \<Rightarrow> Some (Inl e)
                | Inr folderEnd \<Rightarrow>
                    if int folderEnd - int folderStart < nestingThreshold_or_1 w then
                      (case inline_loop w rs folderStart folderEnd result sel of
                         Inl e \<Rightarrow> Some (Inl e)
                       | Inr (result1, sel1) \<Rightarrow>
                           build_loop n w rs folderEnd end level parent result1 sel1)
                    else
                      (case at_index rs (folderEnd - 1) of
                         None \<Rightarrow> Some (Inl TypeError)
                       | Some lastFileChange \<Rightarrow>
                           (let firstFileParts = pathParts firstFileChange;
                                lastFileParts = pathParts lastFileChange;
                                thisLevel = thisLevel_loop firstFileParts lastFileParts (level + 1);
                                nodeRelativePath = join_slash (slice firstFileParts level thisLevel)
                            in case toFileChangeFolderNode n w rs folderStart folderEnd thisLevel
                                      nodeRelativePath parent sel of
                                 None \<Rightarrow> None
                               | Some (Inl e) \<Rightarrow> Some (Inl e)
                               | Some (Inr (folderNode, sel1)) \<Rightarrow>
                                   build_loop n w rs folderEnd end level parent
                                     (result @ [folderNode]) sel1))))
      else Some (Inr (result, sel)))"
| "buildFileChangeTree 0 w rs start end level parent sel = None"
| "buildFileChangeTree (Suc n) w rs start end level parent sel =
     (case build_loop n w rs start end level parent [] sel of
        None \<Rightarrow> None
      | Some (Inl e) \<Rightarrow> Some (Inl e)
      | Some (Inr (result, sel1)) \<Rightarrow> Some (Inr (array_sort (doCompareNodes w) result, sel1)))"
| "toFileChangeFolderNode 0 w rs start end level nodeRelativePath parent sel = None"
| "toFileChangeFolderNode (Suc n) w rs start end level nodeRelativePath parent sel =
     (let sourceUri = uri_resolve w (parentPath parent) nodeRelativePath;
          defaultExpansion = defaultExpansion_flag w;
          ident = parent_groupId parent @ '':'' @ sourceUri;
          oldNode = getNode w ident;
          expandedFlag = (if ExpandableTreeNode_is oldNode then oldNode_expanded oldNode
                          else defaultExpansion);
          selectedFlag = (SelectableTreeNode_is oldNode \<and> oldNode_selected oldNode)
      in case buildFileChangeTree n w rs start end level
                (FolderParent (parent_groupId parent) sourceUri) sel of
           None \<Rightarrow> None
         | Some (Inl e) \<Rightarrow> Some (Inl e)
         | Some (Inr (children, sel1)) \<Rightarrow>
             Some (Inr (FileChangeFolderNode ident (parent_groupId parent) nodeRelativePath
                          sourceUri children expandedFlag selectedFlag, sel1)))"

  by pat_completeness auto
termination
  by (relation "measure (\<lambda>x. case x of
        Inl (n, a) \<Rightarrow> n
      | Inr (Inl (n, a)) \<Rightarrow> n
      | Inr (Inr (n, a)) \<Rightarrow> n)") auto

text \<open>A string is truthy when it is defined and not empty.\<close>

fun truthy :: "string option \<Rightarrow> bool" where
  "truthy None = False"
| "truthy (Some s) = (s \<noteq> [])"

definition resourcePaths_of :: "widget \<Rightarrow> string \<Rightarrow> ScmResource list \<Rightarrow> resource_path list" where
  "resourcePaths_of w groupRootUri rs =
     map (\<lambda>r. let relativePath = uri_relative w groupRootUri (sourceUri r);
                   parts = (case relativePath of
                              Some p \<Rightarrow> split_slash p
                            | None \<Rightarrow> [])
               in \<lparr>resource = r, pathParts = parts\<rparr>) rs"

text \<open>
  \<open>toGroupNode(group, parent)\<close>; \<open>rootRootUri\<close> is the \<open>rootUri\<close> of the root node
  the group node is built under.
\<close>

definition toGroupNode ::
  "nat \<Rightarrow> widget \<Rightarrow> ScmResourceGroup \<Rightarrow> string option \<Rightarrow> selection
    \<Rightarrow> (error + (FileChangeGroupNode \<times> selection)) option" where
  "toGroupNode n w grp rootRootUri sel =
     (let groupNode = \<lparr>groupNodeId = groupId grp, groupNodeGroupId = groupId grp,
                        groupNodeChildren = [], groupNodeExpanded = True\<rparr>
      in case viewMode w of
           flat \<Rightarrow>
             (case toFileChangeNodes w (resources grp) sel of (nodes, sel1) \<Rightarrow>
                Some (Inr (groupNode\<lparr>groupNodeChildren := nodes\<rparr>, sel1)))
         | tree \<Rightarrow>
             (case groupProviderRootUri grp of
                Some groupRootUri \<Rightarrow>
                  if truthy (Some groupRootUri) then
                    (case buildFileChangeTree n w
                            (resourcePaths_of w groupRootUri (resources grp))
                            0 (length (resources grp)) 0
                            (GroupParent (groupNodeGroupId groupNode) rootRootUri) sel of
                       None \<Rightarrow> None
                     | Some (Inl e) \<Rightarrow> Some (Inl e)
                     | Some (Inr (nodes, sel1)) \<Rightarrow>
                         Some (Inr (groupNode\<lparr>groupNodeChildren := nodes\<rparr>, sel1)))
                  else Some (Inr (groupNode, sel))
              | None \<Rightarrow> Some (Inr (groupNode, sel))))"

text \<open>\<open>groups.map(group => this.toGroupNode(group, root))\<close>, left to right.\<close>

fun toGroupNodes ::
  "nat \<Rightarrow> widget \<Rightarrow> ScmResourceGroup list \<Rightarrow> string option \<Rightarrow> selection
    \<Rightarrow> (error + (FileChangeGroupNode list \<times> selection)) option" where
  "toGroupNodes n w [] rootRootUri sel = Some (Inr ([], sel))"
| "toGroupNodes n w (g # gs) rootRootUri sel =
     (case toGroupNode n w g rootRootUri sel of
        None \<Rightarrow> None
      | Some (Inl e) \<Rightarrow> Some (Inl e)
      | Some (Inr (groupNode, sel1)) \<Rightarrow>
          (case toGroupNodes n w gs rootRootUri sel1 of
             None \<Rightarrow> None
           | Some (Inl e) \<Rightarrow> Some (Inl e)
           | Some (Inr (groupNodes, sel2)) \<Rightarrow> Some (Inr (groupNode # groupNodes, sel2))))"

definition createTree ::
  "nat \<Rightarrow> widget \<Rightarrow> ScmProvider \<Rightarrow> selection
    \<Rightarrow> (error + (FileChangeGroupRoot \<times> selection)) option" where
  "createTree n w provider sel =
     (let root = \<lparr>rootNodeId = ''file-change-tree-root'', rootNodeRootUri = rootUri provider,
                   rootNodeChildren = []\<rparr>
      in case toGroupNodes n w
                [grp \<leftarrow> groups provider. resources grp \<noteq> [] \<or> \<not> hideWhenEmpty grp]
                (rootNodeRootUri root) sel of
           None \<Rightarrow> None
         | Some (Inl e) \<Rightarrow> Some (Inl e)
         | Some (Inr (groupNodes, sel1)) \<Rightarrow>
             Some (Inr (root\<lparr>rootNodeChildren := groupNodes\<rparr>, sel1)))"

subsection \<open>The cursor over the file nodes\<close>

text \<open>
  Modelled from the spec: the tree model of the platform, which the spec describes as
  giving "selection state" and "a visible-order previous/next-selectable-node query". The
  widget sees the nodes that are visible (every ancestor expanded) and selectable (folder
  and file nodes; group headers are not selectable), in top-down order. A node reference is
  its position in that order.
\<close>

fun visibleNodes :: "change_node list \<Rightarrow> change_node list"
  and visibleNode :: "change_node \<Rightarrow> change_node list" where
  "visibleNodes [] = []"
| "visibleNodes (c # cs) = visibleNode c @ visibleNodes cs"
| "visibleNode (FileChangeNode i u d s) = [FileChangeNode i u d s]"
| "visibleNode (FileChangeFolderNode i g p u cs e s) =
     FileChangeFolderNode i g p u cs e s # (if e then visibleNodes cs else [])"

record tree_model =
  selectableNodes :: "change_node list"
  selectedNode :: "nat option"

definition getNextSelectableNode :: "tree_model \<Rightarrow> nat option" where
  "getNextSelectableNode m =
     (case selectedNode m of
        None \<Rightarrow> None
      | Some i \<Rightarrow> if Suc i < length (selectableNodes m) then Some (Suc i) else None)"

definition getPrevSelectableNode :: "tree_model \<Rightarrow> nat option" where
  "getPrevSelectableNode m =
     (case selectedNode m of
        None \<Rightarrow> None
      | Some i \<Rightarrow> if 0 < i \<and> i \<le> length (selectableNodes m) then Some (i - 1) else None)"

definition selectNode :: "nat \<Rightarrow> tree_model \<Rightarrow> tree_model" where
  "selectNode i m = m\<lparr>selectedNode := Some i\<rparr>"

text \<open>
  \<open>moveToPreviousFileNode\<close> and \<open>moveToNextFileNode\<close>: the loop asks the model for
  the neighbour of the selection, returns it when it is a file node, and otherwise selects
  it and asks again. The result is the node returned (\<open>None\<close> for \<open>undefined\<close>) and the
  model as the calls of \<open>selectNode\<close> left it.
\<close>

function moveToPreviousFileNode :: "tree_model \<Rightarrow> change_node option \<times> tree_model" where
  "moveToPreviousFileNode m =
     (case getPrevSelectableNode m of
        None \<Rightarrow> (None, m)
      | Some previousNode \<Rightarrow>
          if FileChangeNode_is (selectableNodes m ! previousNode)
          then (Some (selectableNodes m ! previousNode), selectNode previousNode m)
          else moveToPreviousFileNode (selectNode previousNode m))"
  by pat_completeness auto
termination
  by (relation "measure (\<lambda>m. case selectedNode m of None \<Rightarrow> 0 | Some i \<Rightarrow> i)")
    (auto simp: getPrevSelectableNode_def selectNode_def split: option.splits if_splits)

function moveToNextFileNode :: "tree_model \<Rightarrow> change_node option \<times> tree_model" where
  "moveToNextFileNode m =
     (case getNextSelectableNode m of
        None \<Rightarrow> (None, m)
      | Some nextNode \<Rightarrow>
          if FileChangeNode_is (selectableNodes m ! nextNode)
          then (Some (selectableNodes m ! nextNode), selectNode nextNode m)
          else moveToNextFileNode (selectNode nextNode m))"
  by pat_completeness auto
termination
  by (relation "measure (\<lambda>m. case selectedNode m of
        None \<Rightarrow> 0
      | Some i \<Rightarrow> length (selectableNodes m) - i)")
    (auto simp: getNextSelectableNode_def selectNode_def split: option.splits if_splits)

subsection \<open>Opening a resource\<close>

text \<open>
  An editor widget as \<open>openResource\<close> reads it: \<open>getResourceUri()\<close> (its path and its
  string; \<open>None\<close> for \<open>undefined\<close>) and \<open>editor.uri.scheme\<close>.
\<close>

record resource_uri =
  uriPath :: string
  uriString :: string

record EditorWidget =
  getResourceUri :: "resource_uri option"
  editorUriScheme :: string

text \<open>
  What the key handlers work on: the editors of the editor manager, the console, and the
  tree model with its selection.
\<close>

record workbench =
  editors :: "EditorWidget list"
  console :: "(string \<times> string) list"
  model :: tree_model

text \<open>
  The \<open>for\<close> loop of \<open>openResource\<close> over \<open>editorManager.all\<close>. The platform's
  constant \<open>DiffUris.DIFF_SCHEME\<close> is the parameter \<open>DIFF_SCHEME\<close>.
\<close>

fun find_editor ::
  "string \<Rightarrow> ScmResource \<Rightarrow> EditorWidget list \<Rightarrow> EditorWidget option
    \<Rightarrow> EditorWidget option" where
  "find_editor DIFF_SCHEME r [] standaloneEditor = standaloneEditor"
| "find_editor DIFF_SCHEME r (widget # rest) standaloneEditor =
     (let resourcePath = sourceUriPath r;
          editorResourcePath = map_option uriPath (getResourceUri widget)
      in if Some resourcePath = editorResourcePath
            \<and> editorUriScheme widget = DIFF_SCHEME then Some widget
         else
           (let standalone1 = (if Some resourcePath = editorResourcePath then Some widget
                               else standaloneEditor)
            in if editorUriScheme widget = DIFF_SCHEME
                  \<and> (case getResourceUri widget of
                        None \<Rightarrow> ''undefined''
                      | Some u \<Rightarrow> uriString u) = sourceUri r
               then Some widget
               else find_editor DIFF_SCHEME r rest standalone1))"

text \<open>
  \<open>resource.open()\<close> belongs to the provider and is a parameter: from the editors that
  are open it either rejects with an error (\<open>Inl\<close>) or resolves, leaving the editors that
  are open afterwards.
\<close>

definition openResource ::
  "string \<Rightarrow> (ScmResource \<Rightarrow> EditorWidget list \<Rightarrow> string + EditorWidget list)
    \<Rightarrow> ScmResource \<Rightarrow> workbench \<Rightarrow> EditorWidget option \<times> workbench" where
  "openResource DIFF_SCHEME open r s =
     (case open r (editors s) of
        Inl e \<Rightarrow> (None, s\<lparr>console := console s @ [(''Failed to open a SCM resource'', e)]\<rparr>)
      | Inr opened \<Rightarrow> (find_editor DIFF_SCHEME r opened None, s\<lparr>editors := opened\<rparr>))"

subsection \<open>The left and right keys\<close>

text \<open>
  What the key handlers read besides the workbench: \<open>scmService.selectedRepository\<close>
  (its provider, \<open>None\<close> for \<open>undefined\<close>) and the \<open>parent\<close> field of the nodes, which the
  node datatype leaves out: \<open>parentNode i\<close> is the parent of the node at position \<open>i\<close> of
  the model when that is a group or a folder node, and \<open>None\<close> otherwise. The model keeps
  one selection, so \<open>selectedNodes.length === 1\<close> is \<open>selectedNode = Some i\<close>.
  \<open>diffMoves\<close> lists the calls of \<open>previous()\<close> and \<open>next()\<close> on diff navigators.
\<close>

datatype diff_move = previous_change | next_change

record DiffNavigator =
  canNavigate :: bool
  hasPrevious :: bool
  hasNext :: bool

record key_state =
  bench :: workbench
  selectedRepository :: "ScmProvider option"
  parentNode :: "nat \<Rightarrow> parent_node option"
  diffMoves :: "(EditorWidget \<times> diff_move) list"

text \<open>
  \<open>getResourceFromNode(node)\<close> for the node at position \<open>node\<close>. The two \<open>find\<close> calls
  carry a non-null assertion: reading \<open>resources\<close> of a group that was not found throws,
  a resource that was not found is returned as \<open>undefined\<close>.
\<close>

definition getResourceFromNode :: "key_state \<Rightarrow> nat \<Rightarrow> error + ScmResource option" where
  "getResourceFromNode s node =
     (case selectedRepository s of
        None \<Rightarrow> Inr None
      | Some repository \<Rightarrow>
          (case parentNode s node of
             None \<Rightarrow> Inr None
           | Some parent \<Rightarrow>
               (case find (\<lambda>g. groupId g = parent_groupId parent) (groups repository) of
                  None \<Rightarrow> Inl TypeError
                | Some grp \<Rightarrow>
                    Inr (find (\<lambda>r. sourceUri r
                                   = node_sourceUri (selectableNodes (model (bench s)) ! node))
                           (resources grp)))))"

text \<open>
  \<open>handleLeft\<close> and \<open>handleRight\<close>. The inherited handlers \<open>super.handleLeft\<close> and
  \<open>super.handleRight\<close> belong to the platform and are parameters that work on the tree
  model, as is \<open>diffNavigatorProvider\<close>. The second \<open>openResource\<close> is not awaited; its
  effect on the workbench is taken as done. \<open>Inl\<close> is a rejected promise.
\<close>

definition open_moved ::
  "string \<Rightarrow> (ScmResource \<Rightarrow> EditorWidget list \<Rightarrow> string + EditorWidget list)
    \<Rightarrow> key_state \<Rightarrow> change_node option \<times> tree_model \<Rightarrow> error + key_state" where
  "open_moved DIFF_SCHEME open s moved =
     (case moved of
        (None, m1) \<Rightarrow> Inr (s\<lparr>bench := (bench s)\<lparr>model := m1\<rparr>\<rparr>)
      | (Some movedNode, m1) \<Rightarrow>
          (let s1 = s\<lparr>bench := (bench s)\<lparr>model := m1\<rparr>\<rparr>
           in case selectedNode m1 of
                None \<Rightarrow> Inr s1
              | Some j \<Rightarrow>
                  (case getResourceFromNode s1 j of
                     Inl e \<Rightarrow> Inl e
                   | Inr None \<Rightarrow> Inr s1
                   | Inr (Some movedResource) \<Rightarrow>
                       Inr (s1\<lparr>bench :=
                              snd (openResource DIFF_SCHEME open movedResource (bench s1))\<rparr>))))"

definition handleLeft ::
  "string \<Rightarrow> (ScmResource \<Rightarrow> EditorWidget list \<Rightarrow> string + EditorWidget list)
    \<Rightarrow> (EditorWidget \<Rightarrow> DiffNavigator) \<Rightarrow> (tree_model \<Rightarrow> tree_model)
    \<Rightarrow> key_state \<Rightarrow> error + key_state" where
  "handleLeft DIFF_SCHEME open diffNavigatorProvider super_handleLeft s =
     (case selectedRepository s of
        None \<Rightarrow> Inr s
      | Some repository \<Rightarrow>
          (case selectedNode (model (bench s)) of
             None \<Rightarrow> Inr (s\<lparr>bench := (bench s)\<lparr>model := super_handleLeft (model (bench s))\<rparr>\<rparr>)
           | Some selected \<Rightarrow>
               if FileChangeNode_is (selectableNodes (model (bench s)) ! selected) then
                 (case getResourceFromNode s selected of
                    Inl e \<Rightarrow> Inl e
                  | Inr None \<Rightarrow>
                      Inr (s\<lparr>bench := (bench s)\<lparr>model := super_handleLeft (model (bench s))\<rparr>\<rparr>)
                  | Inr (Some selectedResource) \<Rightarrow>
                      (case openResource DIFF_SCHEME open selectedResource (bench s) of
                         (Some widget, b1) \<Rightarrow>
                           (let diffNavigator = diffNavigatorProvider widget
                            in if canNavigate diffNavigator \<and> hasPrevious diffNavigator
                               then Inr (s\<lparr>bench := b1,
                                           diffMoves := diffMoves s @ [(widget, previous_change)]\<rparr>)
                               else open_moved DIFF_SCHEME open (s\<lparr>bench := b1\<rparr>)
                                      (moveToPreviousFileNode (model b1)))
                       | (None, b1) \<Rightarrow>
                           Inr (s\<lparr>bench := b1\<lparr>model := super_handleLeft (model b1)\<rparr>\<rparr>)))
               else Inr (s\<lparr>bench := (bench s)\<lparr>model := super_handleLeft (model (bench s))\<rparr>\<rparr>)))"

definition handleRight ::
  "string \<Rightarrow> (ScmResource \<Rightarrow> EditorWidget list \<Rightarrow> string + EditorWidget list)
    \<Rightarrow> (EditorWidget \<Rightarrow> DiffNavigator) \<Rightarrow> (tree_model \<Rightarrow> tree_model)
    \<Rightarrow> key_state \<Rightarrow> error + key_state" where
  "handleRight DIFF_SCHEME open diffNavigatorProvider super_handleRight s =
     (case selectedRepository s of
        None \<Rightarrow> Inr s
      | Some repository \<Rightarrow>
          (case selectedNode (model (bench s)) of
             None \<Rightarrow> Inr (s\<lparr>bench := (bench s)\<lparr>model := super_handleRight (model (bench s))\<rparr>\<rparr>)
           | Some selected \<Rightarrow>
               if FileChangeNode_is (selectableNodes (model (bench s)) ! selected) then
                 (case getResourceFromNode s selected of
                    Inl e \<Rightarrow> Inl e
                  | Inr None \<Rightarrow>
                      Inr (s\<lparr>bench := (bench s)\<lparr>model := super_handleRight (model (bench s))\<rparr>\<rparr>)
                  | Inr (Some selectedResource) \<Rightarrow>
                      (case openResource DIFF_SCHEME open selectedResource (bench s) of
                         (Some widget, b1) \<Rightarrow>
                           (let diffNavigator = diffNavigatorProvider widget
                            in if canNavigate diffNavigator \<and> hasNext diffNavigator
                               then Inr (s\<lparr>bench := b1,
                                           diffMoves := diffMoves s @ [(widget, next_change)]\<rparr>)
                               else open_moved DIFF_SCHEME open (s\<lparr>bench := b1\<rparr>)
                                      (moveToNextFileNode (model b1)))
                       | (None, b1) \<Rightarrow> Inr (s\<lparr>bench := b1\<rparr>)))
               else Inr (s\<lparr>bench := (bench s)\<lparr>model := super_handleRight (model (bench s))\<rparr>\<rparr>)))"

text \<open>
  Modelled from the spec: the default left-key handling of the generic tree widget, which
  is not in the source. The spec names it "collapse/expand/ancestor-navigation", and the
  comment of \<open>handleLeft\<close> says what it does: it collapses the node if that is an expanded
  folder, and otherwise it moves the selection up to the parent folder, a no-op if there
  is no parent folder, as group headers are not selectable. In the list of visible nodes
  the parent folder of a node is the last folder before it whose visible nodes reach the
  node's position; collapsing a folder takes the nodes below it out of the list.
\<close>

definition parentFolder :: "change_node list \<Rightarrow> nat \<Rightarrow> nat option" where
  "parentFolder nodes i =
     (case filter (\<lambda>j. FileChangeFolderNode_is (nodes ! j)
                       \<and> i < j + length (visibleNode (nodes ! j))) [0..<i] of
        [] \<Rightarrow> None
      | j # js \<Rightarrow> Some (last (j # js)))"

fun collapsedNode :: "change_node \<Rightarrow> change_node" where
  "collapsedNode (FileChangeFolderNode i g p u cs e s) = FileChangeFolderNode i g p u cs False s"
| "collapsedNode (FileChangeNode i u d s) = FileChangeNode i u d s"

definition TreeWidget_handleLeft :: "tree_model \<Rightarrow> tree_model" where
  "TreeWidget_handleLeft m =
     (case selectedNode m of
        None \<Rightarrow> m
      | Some i \<Rightarrow>
          (let nodes = selectableNodes m; node = nodes ! i
           in if FileChangeFolderNode_is node \<and> node_expanded node
              then m\<lparr>selectableNodes :=
                       take i nodes @ [collapsedNode node]
                         @ drop (i + length (visibleNode node)) nodes\<rparr>
              else (case parentFolder nodes i of
                      None \<Rightarrow> m
                    | Some j \<Rightarrow> selectNode j m)))"

subsection \<open>Storing and restoring the view mode\<close>

datatype js_value =
    JUndefined
  | JNull
  | JBoolean bool
  | JNumber int
  | JString string
  | JObject "(string \<times> js_value) list"

text \<open>
  \<open>const { mode, tree } = oldState\<close> throws on \<open>undefined\<close> and \<open>null\<close>; any other
  value has the property or gives \<open>undefined\<close> for it.
\<close>

fun get_property :: "js_value \<Rightarrow> string \<Rightarrow> error + js_value" where
  "get_property JUndefined k = Inl TypeError"
| "get_property JNull k = Inl TypeError"
| "get_property (JObject entries) k =
     Inr (case map_of entries k of None \<Rightarrow> JUndefined | Some v \<Rightarrow> v)"
| "get_property v k = Inr JUndefined"

fun view_mode_string :: "view_mode \<Rightarrow> string" where
  "view_mode_string flat = ''flat''"
| "view_mode_string tree = ''tree''"

text \<open>
  The inherited \<open>storeState\<close> and \<open>restoreState\<close> of the tree widget work on the tree
  model and are parameters, as is \<open>JSON.stringify\<close>. \<open>storeState\<close> returns the state
  object and the two lines it prints.
\<close>

definition storeState ::
  "((string \<Rightarrow> tree_node option) \<Rightarrow> js_value) \<Rightarrow> (js_value \<Rightarrow> string) \<Rightarrow> widget
    \<Rightarrow> js_value \<times> string list" where
  "storeState super_storeState stringify w =
     (let state = JObject [(''mode'', JString (view_mode_string (viewMode w))),
                           (''tree'', super_storeState (getNode w))]
      in (state, [''saving state'', ''state is '' @ stringify state]))"

definition restoreState ::
  "(js_value \<Rightarrow> (string \<Rightarrow> tree_node option) \<Rightarrow> (string \<Rightarrow> tree_node option))
    \<Rightarrow> js_value \<Rightarrow> widget \<Rightarrow> error + widget" where
  "restoreState super_restoreState oldState w =
     (case get_property oldState ''mode'' of
        Inl e \<Rightarrow> Inl e
      | Inr mode \<Rightarrow>
          (case get_property oldState ''tree'' of
             Inl e \<Rightarrow> Inl e
           | Inr treeState \<Rightarrow>
               Inr (w\<lparr>viewMode := (if mode = JString ''tree'' then tree else flat),
                      getNode := super_restoreState treeState (getNode w)\<rparr>)))"

subsection \<open>Order and identity of the nodes of a tree\<close>

text \<open>
  \<open>node_before w a b\<close>: the order the spec asks of a child \<open>a\<close> that stands before a
  child \<open>b\<close>: a file node never stands before a folder node, and two nodes of one kind
  are in ascending \<open>localeCompare\<close> order of their \<open>sourceUri\<close>.
\<close>

definition node_before :: "widget \<Rightarrow> change_node \<Rightarrow> change_node \<Rightarrow> bool" where
  "node_before w a b =
     ((FileChangeFolderNode_is a \<or> \<not> FileChangeFolderNode_is b)
      \<and> (FileChangeFolderNode_is a = FileChangeFolderNode_is b
           \<longrightarrow> localeCompare w (node_sourceUri a) (node_sourceUri b) \<le> 0))"

text \<open>The children of the node and of every folder below it are in that order.\<close>

fun siblings_ordered :: "widget \<Rightarrow> change_node \<Rightarrow> bool" where
  "siblings_ordered w (FileChangeNode i u d s) = True"
| "siblings_ordered w (FileChangeFolderNode i g p u cs e s) =
     (sorted_wrt (node_before w) cs \<and> (\<forall>c \<in> set cs. siblings_ordered w c))"




subsection \<open>Lists of resources the builder is made for\<close>

text \<open>\<open>proper_prefix xs ys\<close>: \<open>ys\<close> is \<open>xs\<close> followed by at least one more element.\<close>

definition proper_prefix :: "'a list \<Rightarrow> 'a list \<Rightarrow> bool" where
  "proper_prefix xs ys = (length xs < length ys \<and> take (length xs) ys = xs)"

text \<open>The path of resource \<open>i\<close> from \<open>level\<close> on.\<close>

definition segments_from :: "resource_path list \<Rightarrow> nat \<Rightarrow> nat \<Rightarrow> string list" where
  "segments_from rs level i = drop level (pathParts (rs ! i))"

text \<open>
  \<open>well_grouped rs start end level\<close>: the resources from \<open>start\<close> up to \<open>end\<close> are in
  the list, each has a segment at \<open>level\<close>, none has a path that is a proper prefix of the
  path of a resource before it, and whenever two of them share their first \<open>k\<close> segments,
  so does every resource between them (paths taken from \<open>level\<close> on).
\<close>

definition well_grouped :: "resource_path list \<Rightarrow> nat \<Rightarrow> nat \<Rightarrow> nat \<Rightarrow> bool" where
  "well_grouped rs start end level =
     (end \<le> length rs
      \<and> (\<forall>i \<in> set [start..<end]. level < length (pathParts (rs ! i)))
      \<and> (\<forall>i \<in> set [start..<end]. \<forall>j \<in> set [Suc i..<end].
            \<not> proper_prefix (segments_from rs level j) (segments_from rs level i))
      \<and> (\<forall>i \<in> set [start..<end]. \<forall>m \<in> set [Suc i..<end]. \<forall>j \<in> set [Suc m..<end].
          \<forall>k \<in> set [0..<Suc (length (segments_from rs level i))].
            take k (segments_from rs level i) = take k (segments_from rs level j)
            \<longrightarrow> take k (segments_from rs level m) = take k (segments_from rs level i)))"

subsection \<open>A sample platform\<close>

text \<open>
  One instance of the platform's operations, for running the builder on examples:
  a URI is relative to a root when it starts with the root and a slash, resolving appends
  a slash and the relative path, and strings compare by their character codes.
\<close>

definition sample_relative :: "string \<Rightarrow> string \<Rightarrow> string option" where
  "sample_relative root uri =
     (if take (Suc (length root)) uri = root @ ''/'' then Some (drop (Suc (length root)) uri)
      else None)"

fun sample_resolve :: "string option \<Rightarrow> string \<Rightarrow> string" where
  "sample_resolve None rel = rel"
| "sample_resolve (Some p) rel = p @ ''/'' @ rel"

fun sample_compare :: "string \<Rightarrow> string \<Rightarrow> int" where
  "sample_compare [] [] = 0"
| "sample_compare [] (b # bs) = - 1"
| "sample_compare (a # as) [] = 1"
| "sample_compare (a # as) (b # bs) =
     (if a = b then sample_compare as bs
      else if (of_char a :: nat) < of_char b then - 1 else 1)"

definition sample_widget :: "ScmTreeProps \<Rightarrow> view_mode \<Rightarrow> (string \<Rightarrow> tree_node option) \<Rightarrow> widget" where
  "sample_widget p m old =
     \<lparr>uri_relative = sample_relative, uri_resolve = sample_resolve,
      localeCompare = sample_compare, getNode = old, props = p, viewMode = m\<rparr>"

definition sample_resource :: "string \<Rightarrow> string \<Rightarrow> ScmResource" where
  "sample_resource g u =
     \<lparr>sourceUri = u, sourceUriPath = u, decorations = None, resourceGroupId = g\<rparr>"

definition sample_tree_widget :: widget where
  "sample_tree_widget =
     sample_widget \<lparr>defaultExpansion = None, nestingThreshold = None\<rparr> tree (\<lambda>i. None)"

definition sample_path :: "string list \<Rightarrow> resource_path" where
  "sample_path parts =
     \<lparr>resource = sample_resource ''g'' (''/r/'' @ join_slash parts), pathParts = parts\<rparr>"

text \<open>The files \<open>a/x.txt\<close>, \<open>a/y.txt\<close> and \<open>b.txt\<close> of a group \<open>g\<close> under the root \<open>/r\<close>.\<close>

definition sample_paths :: "resource_path list" where
  "sample_paths =
     [sample_path [''a'', ''x.txt''], sample_path [''a'', ''y.txt''], sample_path [''b.txt'']]"


text \<open>A group \<open>g\<close> with the two files \<open>b.txt\<close> and \<open>a.txt\<close>, in this order.\<close>

definition sample_provider :: ScmProvider where
  "sample_provider =
     \<lparr>rootUri = Some ''/r'',
      groups = [\<lparr>groupId = ''g'', hideWhenEmpty = False,
                 resources = [sample_resource ''g'' ''/r/b.txt'', sample_resource ''g'' ''/r/a.txt''],
                 groupProviderRootUri = Some ''/r''\<rparr>]\<rparr>"




text \<open>
  The tree of the files \<open>a/x.txt\<close> and \<open>b/y.txt\<close>, with \<open>x.txt\<close> selected, the folder
  \<open>a\<close> expanded and the folder \<open>b\<close> expanded or collapsed, and the tree model that shows
  it.
\<close>

definition sample_forest :: "bool \<Rightarrow> change_node list" where
  "sample_forest b_expanded =
     [FileChangeFolderNode ''g:/r/a'' ''g'' ''a'' ''/r/a''
        [FileChangeNode ''g:/r/a/x.txt'' ''/r/a/x.txt'' None True] True False,
      FileChangeFolderNode ''g:/r/b'' ''g'' ''b'' ''/r/b''
        [FileChangeNode ''g:/r/b/y.txt'' ''/r/b/y.txt'' None False] b_expanded False]"

definition sample_model :: "bool \<Rightarrow> tree_model" where
  "sample_model b_expanded =
     \<lparr>selectableNodes = visibleNodes (sample_forest b_expanded), selectedNode = Some 1\<rparr>"

text \<open>
  The key handlers' view of that tree: the provider of the two files, nothing open, and
  the parents of the four visible nodes.
\<close>

definition sample_nested_provider :: ScmProvider where
  "sample_nested_provider =
     \<lparr>rootUri = Some ''/r'',
      groups = [\<lparr>groupId = ''g'', hideWhenEmpty = False,
                 resources = [sample_resource ''g'' ''/r/a/x.txt'',
                              sample_resource ''g'' ''/r/b/y.txt''],
                 groupProviderRootUri = Some ''/r''\<rparr>]\<rparr>"

definition sample_key_state :: key_state where
  "sample_key_state =
     \<lparr>bench = \<lparr>editors = [], console = [], model = sample_model True\<rparr>,
      selectedRepository = Some sample_nested_provider,
      parentNode = (\<lambda>i. if i = 1 then Some (FolderParent ''g'' ''/r/a'')
                         else if i = 3 then Some (FolderParent ''g'' ''/r/b'')
                         else Some (GroupParent ''g'' (Some ''/r''))),
      diffMoves = []\<rparr>"

section \<open>Properties\<close>

text \<open>
  The equations of the loops unfold without end under the simplifier; they are applied by
  hand, one round at a time.
\<close>

declare folderEnd_loop.simps [simp del]
declare thisLevel_loop.simps [simp del]
declare inline_loop.simps [simp del]
declare moveToPreviousFileNode.simps [simp del]
declare moveToNextFileNode.simps [simp del]

subsection \<open>File nodes\<close>

lemma toFileChangeNode_fst:
  "fst (toFileChangeNode w r sel) = fst (toFileChangeNode w r None)"
  by (simp add: toFileChangeNode_def Let_def)

lemma toFileChangeNode_leaf:
  "FileChangeNode_is (fst (toFileChangeNode w r sel))"
  "node_sourceUri (fst (toFileChangeNode w r sel)) = sourceUri r"
  "node_id (fst (toFileChangeNode w r sel)) = resourceGroupId r @ '':'' @ sourceUri r"
  by (simp_all add: toFileChangeNode_def Let_def)

lemma toFileChangeNodes_fst:
  "fst (toFileChangeNodes w rs sel) = map (\<lambda>r. fst (toFileChangeNode w r None)) rs"
proof (induction rs arbitrary: sel)
  case Nil
  show ?case by simp
next
  case (Cons r rs)
  obtain node sel1 where a: "toFileChangeNode w r sel = (node, sel1)"
    by (cases "toFileChangeNode w r sel")
  obtain nodes sel2 where b: "toFileChangeNodes w rs sel1 = (nodes, sel2)"
    by (cases "toFileChangeNodes w rs sel1")
  have "node = fst (toFileChangeNode w r None)"
    using a toFileChangeNode_fst [of w r sel] by simp
  moreover have "nodes = map (\<lambda>r. fst (toFileChangeNode w r None)) rs"
    using b Cons.IH [of sel1] by simp
  ultimately show ?case using a b by simp
qed

subsection \<open>Sorting and the inner loops\<close>

lemma set_sort_insert: "set (sort_insert cmp x xs) = insert x (set xs)"
  by (induction xs) auto

lemma set_array_sort: "set (array_sort cmp xs) = set xs"
  by (induction xs) (auto simp: set_sort_insert)

lemma length_sort_insert: "length (sort_insert cmp x xs) = Suc (length xs)"
  by (induction xs) auto

lemma length_array_sort: "length (array_sort cmp xs) = length xs"
  by (induction xs) (auto simp: length_sort_insert)

lemma sorted_sort_insert:
  assumes total: "\<And>a b. cmp a b \<le> 0 \<or> cmp b a \<le> 0"
    and trans: "\<And>a b c. cmp a b \<le> 0 \<Longrightarrow> cmp b c \<le> 0 \<Longrightarrow> cmp a c \<le> 0"
  shows "sorted_wrt (\<lambda>a b. cmp a b \<le> 0) xs
         \<Longrightarrow> sorted_wrt (\<lambda>a b. cmp a b \<le> 0) (sort_insert cmp x xs)"
proof (induction xs)
  case Nil
  show ?case by simp
next
  case (Cons y ys)
  show ?case
  proof (cases "cmp x y \<le> 0")
    case True
    have "\<forall>z \<in> set ys. cmp x z \<le> 0"
      using Cons.prems True trans by auto
    then show ?thesis using True Cons.prems by simp
  next
    case False
    then have yx: "cmp y x \<le> 0" using total [of x y] by simp
    have "sorted_wrt (\<lambda>a b. cmp a b \<le> 0) (sort_insert cmp x ys)"
      using Cons.IH Cons.prems by simp
    moreover have "\<forall>z \<in> set (sort_insert cmp x ys). cmp y z \<le> 0"
      using yx Cons.prems by (auto simp: set_sort_insert)
    ultimately show ?thesis using False by simp
  qed
qed

lemma sorted_array_sort:
  assumes total: "\<And>a b. cmp a b \<le> 0 \<or> cmp b a \<le> 0"
    and trans: "\<And>a b c. cmp a b \<le> 0 \<Longrightarrow> cmp b c \<le> 0 \<Longrightarrow> cmp a c \<le> 0"
  shows "sorted_wrt (\<lambda>a b. cmp a b \<le> 0) (array_sort cmp xs)"
proof (induction xs)
  case Nil
  show ?case by simp
next
  case (Cons x xs)
  show ?case using sorted_sort_insert [of cmp, OF total trans Cons.IH] by simp
qed

lemma folderEnd_loop_bounds:
  "folderEnd_loop rs end level first index = Inr fe \<Longrightarrow> index \<le> end \<Longrightarrow>
     index \<le> fe \<and> fe \<le> end
     \<and> (\<forall>i. index \<le> i \<and> i < fe \<longrightarrow>
            i < length rs
            \<and> at_index (pathParts (rs ! i)) level = at_index (pathParts first) level)
     \<and> (fe < end \<longrightarrow>
            fe < length rs
            \<and> at_index (pathParts (rs ! fe)) level \<noteq> at_index (pathParts first) level)"
proof (induction rs "end" level first index rule: folderEnd_loop.induct)
  case (1 rs e level first index)
  show ?case
  proof (cases "index < e")
    case False
    then have "folderEnd_loop rs e level first index = Inr index"
      by (subst folderEnd_loop.simps) simp
    then have "fe = index" using "1.prems" by simp
    then show ?thesis using False "1.prems" by auto
  next
    case True
    show ?thesis
    proof (cases "at_index rs index")
      case None
      then show ?thesis using True "1.prems"
        by (simp add: folderEnd_loop.simps [of rs e level first index])
    next
      case (Some r)
      then have r: "index < length rs" "r = rs ! index"
        by (auto simp: at_index_def split: if_splits)
      show ?thesis
      proof (cases "at_index (pathParts r) level \<noteq> at_index (pathParts first) level")
        case True
        then have "fe = index" using \<open>index < e\<close> Some "1.prems"
          by (simp add: folderEnd_loop.simps [of rs e level first index])
        then show ?thesis using True r \<open>index < e\<close> by auto
      next
        case False
        then have rec: "folderEnd_loop rs e level first (Suc index) = Inr fe"
          using \<open>index < e\<close> Some "1.prems"
          by (simp add: folderEnd_loop.simps [of rs e level first index])
        have ih: "Suc index \<le> fe \<and> fe \<le> e
          \<and> (\<forall>i. Suc index \<le> i \<and> i < fe \<longrightarrow>
                i < length rs
                \<and> at_index (pathParts (rs ! i)) level = at_index (pathParts first) level)
          \<and> (fe < e \<longrightarrow>
                fe < length rs
                \<and> at_index (pathParts (rs ! fe)) level \<noteq> at_index (pathParts first) level)"
          using "1.IH" [OF \<open>index < e\<close> Some _ rec] False \<open>index < e\<close> by simp
        have "\<And>i. index \<le> i \<Longrightarrow> i < fe \<Longrightarrow> i < length rs
                \<and> at_index (pathParts (rs ! i)) level = at_index (pathParts first) level"
        proof -
          fix i assume "index \<le> i" "i < fe"
          then consider "i = index" | "Suc index \<le> i" by linarith
          then show "i < length rs
                \<and> at_index (pathParts (rs ! i)) level = at_index (pathParts first) level"
          proof cases
            case 1 then show ?thesis using r False by simp
          next
            case 2 then show ?thesis using ih \<open>i < fe\<close> by simp
          qed
        qed
        then show ?thesis using ih by auto
      qed
    qed
  qed
qed

lemma folderEnd_loop_total:
  "end \<le> length rs \<Longrightarrow> \<exists>fe. folderEnd_loop rs end level first index = Inr fe"
proof (induction rs "end" level first index rule: folderEnd_loop.induct)
  case (1 rs e level first index)
  show ?case
  proof (cases "index < e")
    case False
    then show ?thesis by (simp add: folderEnd_loop.simps [of rs e level first index])
  next
    case True
    then have a: "at_index rs index = Some (rs ! index)"
      using "1.prems" by (simp add: at_index_def)
    show ?thesis
    proof (cases "at_index (pathParts (rs ! index)) level \<noteq> at_index (pathParts first) level")
      case True
      then show ?thesis using \<open>index < e\<close> a
        by (simp add: folderEnd_loop.simps [of rs e level first index])
    next
      case False
      then show ?thesis using "1.IH" [OF \<open>index < e\<close> a _ "1.prems"] \<open>index < e\<close> a
        by (simp add: folderEnd_loop.simps [of rs e level first index])
    qed
  qed
qed

lemma thisLevel_loop_spec:
  "t0 \<le> thisLevel_loop f l t0
   \<and> (\<forall>k. t0 \<le> k \<and> k < thisLevel_loop f l t0 \<longrightarrow>
          int k < int (length f) - 1 \<and> int k < int (length l) - 1 \<and> f ! k = l ! k)
   \<and> \<not> (int (thisLevel_loop f l t0) < int (length f) - 1
        \<and> int (thisLevel_loop f l t0) < int (length l) - 1
        \<and> f ! thisLevel_loop f l t0 = l ! thisLevel_loop f l t0)"
proof (induction f l t0 rule: thisLevel_loop.induct)
  case (1 f l t)
  show ?case
  proof (cases "int t < int (length f) - 1 \<and> int t < int (length l) - 1 \<and> f ! t = l ! t")
    case False
    then have "thisLevel_loop f l t = t"
      by (subst thisLevel_loop.simps) (rule if_not_P)
    then show ?thesis using False by auto
  next
    case True
    then have eq: "thisLevel_loop f l t = thisLevel_loop f l (Suc t)"
      by (subst thisLevel_loop.simps) (rule if_P)
    have ih: "Suc t \<le> thisLevel_loop f l (Suc t)
      \<and> (\<forall>k. Suc t \<le> k \<and> k < thisLevel_loop f l (Suc t) \<longrightarrow>
          int k < int (length f) - 1 \<and> int k < int (length l) - 1 \<and> f ! k = l ! k)
      \<and> \<not> (int (thisLevel_loop f l (Suc t)) < int (length f) - 1
        \<and> int (thisLevel_loop f l (Suc t)) < int (length l) - 1
        \<and> f ! thisLevel_loop f l (Suc t) = l ! thisLevel_loop f l (Suc t))"
      using "1.IH" True by simp
    have "\<And>k. t \<le> k \<Longrightarrow> k < thisLevel_loop f l (Suc t) \<Longrightarrow>
          int k < int (length f) - 1 \<and> int k < int (length l) - 1 \<and> f ! k = l ! k"
    proof -
      fix k assume "t \<le> k" "k < thisLevel_loop f l (Suc t)"
      then consider "k = t" | "Suc t \<le> k" by linarith
      then show "int k < int (length f) - 1 \<and> int k < int (length l) - 1 \<and> f ! k = l ! k"
      proof cases
        case 1 then show ?thesis using True by simp
      next
        case 2 then show ?thesis using ih \<open>k < thisLevel_loop f l (Suc t)\<close> by simp
      qed
    qed
    then show ?thesis using ih eq by auto
  qed
qed

lemma inline_loop_spec:
  "(\<forall>j. i \<le> j \<and> j < fe \<longrightarrow> j < length rs) \<Longrightarrow>
   \<exists>sel1. inline_loop w rs i fe result sel
     = Inr (result @ map (\<lambda>j. fst (toFileChangeNode w (resource (rs ! j)) None)) [i..<fe], sel1)"
proof (induction w rs i fe result sel rule: inline_loop.induct)
  case (1 w rs i fe result sel)
  show ?case
  proof (cases "i < fe")
    case False
    then show ?thesis by (simp add: inline_loop.simps [of w rs i fe result sel])
  next
    case True
    then have a: "at_index rs i = Some (rs ! i)" using "1.prems" by (simp add: at_index_def)
    obtain node sel1 where b: "toFileChangeNode w (resource (rs ! i)) sel = (node, sel1)"
      by (cases "toFileChangeNode w (resource (rs ! i)) sel")
    have node: "node = fst (toFileChangeNode w (resource (rs ! i)) None)"
      using b toFileChangeNode_fst [of w "resource (rs ! i)" sel] by simp
    have "\<forall>j. Suc i \<le> j \<and> j < fe \<longrightarrow> j < length rs" using "1.prems" by simp
    from "1.IH" [OF True a b [symmetric] this]
    obtain sel2 where c: "inline_loop w rs (Suc i) fe (result @ [node]) sel1
        = Inr ((result @ [node]) @ map (\<lambda>j. fst (toFileChangeNode w (resource (rs ! j)) None))
             [Suc i..<fe], sel2)"
      by blast
    have "[i..<fe] = i # [Suc i..<fe]" using True by (simp add: upt_conv_Cons)
    then show ?thesis using True a b c node
      by (simp add: inline_loop.simps [of w rs i fe result sel])
  qed
qed

subsection \<open>The outer loop, one round at a time\<close>

lemma build_loop_done:
  "\<not> folderStart < end \<Longrightarrow>
   build_loop (Suc n) w rs folderStart end level parent result sel = Some (Inr (result, sel))"
  by simp

lemma build_loop_out_of_range:
  "folderStart < end \<Longrightarrow> at_index rs folderStart = None \<Longrightarrow>
   build_loop (Suc n) w rs folderStart end level parent result sel = Some (Inl TypeError)"
  by simp

lemma build_loop_leaf:
  "folderStart < end \<Longrightarrow> at_index rs folderStart = Some first \<Longrightarrow>
   int level = int (length (pathParts first)) - 1 \<Longrightarrow>
   build_loop (Suc n) w rs folderStart end level parent result sel
     = build_loop n w rs (Suc folderStart) end level parent
         (result @ [fst (toFileChangeNode w (resource first) sel)])
         (snd (toFileChangeNode w (resource first) sel))"
  by (simp split: prod.splits)

lemma build_loop_run_error:
  "folderStart < end \<Longrightarrow> at_index rs folderStart = Some first \<Longrightarrow>
   int level \<noteq> int (length (pathParts first)) - 1 \<Longrightarrow>
   folderEnd_loop rs end level first (folderStart + 1) = Inl e \<Longrightarrow>
   build_loop (Suc n) w rs folderStart end level parent result sel = Some (Inl e)"
  by simp

lemma build_loop_inline:
  "folderStart < end \<Longrightarrow> at_index rs folderStart = Some first \<Longrightarrow>
   int level \<noteq> int (length (pathParts first)) - 1 \<Longrightarrow>
   folderEnd_loop rs end level first (folderStart + 1) = Inr folderEnd \<Longrightarrow>
   int folderEnd - int folderStart < nestingThreshold_or_1 w \<Longrightarrow>
   build_loop (Suc n) w rs folderStart end level parent result sel
     = (case inline_loop w rs folderStart folderEnd result sel of
          Inl e \<Rightarrow> Some (Inl e)
        | Inr (result1, sel1) \<Rightarrow> build_loop n w rs folderEnd end level parent result1 sel1)"
  by simp

lemma build_loop_no_last:
  "folderStart < end \<Longrightarrow> at_index rs folderStart = Some first \<Longrightarrow>
   int level \<noteq> int (length (pathParts first)) - 1 \<Longrightarrow>
   folderEnd_loop rs end level first (folderStart + 1) = Inr folderEnd \<Longrightarrow>
   \<not> int folderEnd - int folderStart < nestingThreshold_or_1 w \<Longrightarrow>
   at_index rs (folderEnd - 1) = None \<Longrightarrow>
   build_loop (Suc n) w rs folderStart end level parent result sel = Some (Inl TypeError)"
  by simp

lemma build_loop_folder:
  "folderStart < end \<Longrightarrow> at_index rs folderStart = Some first \<Longrightarrow>
   int level \<noteq> int (length (pathParts first)) - 1 \<Longrightarrow>
   folderEnd_loop rs end level first (folderStart + 1) = Inr folderEnd \<Longrightarrow>
   \<not> int folderEnd - int folderStart < nestingThreshold_or_1 w \<Longrightarrow>
   at_index rs (folderEnd - 1) = Some lastFileChange \<Longrightarrow>
   build_loop (Suc n) w rs folderStart end level parent result sel
     = (case toFileChangeFolderNode n w rs folderStart folderEnd
               (thisLevel_loop (pathParts first) (pathParts lastFileChange) (level + 1))
               (join_slash (slice (pathParts first) level
                  (thisLevel_loop (pathParts first) (pathParts lastFileChange) (level + 1))))
               parent sel of
          None \<Rightarrow> None
        | Some (Inl e) \<Rightarrow> Some (Inl e)
        | Some (Inr (folderNode, sel1)) \<Rightarrow>
            build_loop n w rs folderEnd end level parent (result @ [folderNode]) sel1)"
  by (simp add: Let_def)

lemmas build_loop_steps = build_loop_done build_loop_out_of_range build_loop_leaf
  build_loop_run_error build_loop_inline build_loop_no_last build_loop_folder

declare build_loop.simps(2) [simp del]
declare buildFileChangeTree.simps(2) [simp del]
declare toFileChangeFolderNode.simps(2) [simp del]

subsection \<open>More fuel does not change a result\<close>

lemma fuel_Suc:
  "(\<forall>w rs fs e level parent result sel r.
      build_loop n w rs fs e level parent result sel = Some r
      \<longrightarrow> build_loop (Suc n) w rs fs e level parent result sel = Some r)
   \<and> (\<forall>w rs s e level parent sel r.
      buildFileChangeTree n w rs s e level parent sel = Some r
      \<longrightarrow> buildFileChangeTree (Suc n) w rs s e level parent sel = Some r)
   \<and> (\<forall>w rs s e level path parent sel r.
      toFileChangeFolderNode n w rs s e level path parent sel = Some r
      \<longrightarrow> toFileChangeFolderNode (Suc n) w rs s e level path parent sel = Some r)"
proof (induction n)
  case 0
  show ?case by simp
next
  case (Suc n)
  have ihL: "\<And>w rs fs e level parent result sel r.
      build_loop n w rs fs e level parent result sel = Some r
      \<Longrightarrow> build_loop (Suc n) w rs fs e level parent result sel = Some r"
    using Suc.IH by simp
  have ihB: "\<And>w rs s e level parent sel r.
      buildFileChangeTree n w rs s e level parent sel = Some r
      \<Longrightarrow> buildFileChangeTree (Suc n) w rs s e level parent sel = Some r"
    using Suc.IH by simp
  have ihF: "\<And>w rs s e level path parent sel r.
      toFileChangeFolderNode n w rs s e level path parent sel = Some r
      \<Longrightarrow> toFileChangeFolderNode (Suc n) w rs s e level path parent sel = Some r"
    using Suc.IH by simp
  have L: "build_loop (Suc (Suc n)) w rs fs e level parent result sel = Some r"
    if a: "build_loop (Suc n) w rs fs e level parent result sel = Some r"
    for w rs fs e level parent result sel r
  proof (cases "fs < e")
    case False
    then show ?thesis using a by (simp add: build_loop_done)
  next
    case True
    show ?thesis
    proof (cases "at_index rs fs")
      case None
      then show ?thesis using a True by (simp add: build_loop_out_of_range)
    next
      case (Some first)
      show ?thesis
      proof (cases "int level = int (length (pathParts first)) - 1")
        case leaf: True
        show ?thesis
          using a ihL by (simp add: build_loop_leaf [OF True Some leaf])
      next
        case nonleaf: False
        show ?thesis
        proof (cases "folderEnd_loop rs e level first (fs + 1)")
          case (Inl err)
          then show ?thesis using a by (simp add: build_loop_run_error [OF True Some nonleaf Inl])
        next
          case (Inr fe)
          show ?thesis
          proof (cases "int fe - int fs < nestingThreshold_or_1 w")
            case small: True
            show ?thesis
              using a ihL
              by (auto simp: build_loop_inline [OF True Some nonleaf Inr small]
                  split: sum.splits prod.splits)
          next
            case big: False
            show ?thesis
            proof (cases "at_index rs (fe - 1)")
              case None
              then show ?thesis using a
                by (simp add: build_loop_no_last [OF True Some nonleaf Inr big None])
            next
              case last: (Some lastFileChange)
              show ?thesis
                using a ihL ihF
                by (auto simp: build_loop_folder [OF True Some nonleaf Inr big last]
                    split: option.splits sum.splits prod.splits)
            qed
          qed
        qed
      qed
    qed
  qed
  have B: "buildFileChangeTree (Suc (Suc n)) w rs s e level parent sel = Some r"
    if a: "buildFileChangeTree (Suc n) w rs s e level parent sel = Some r"
    for w rs s e level parent sel r
  proof -
    from a obtain x where x: "build_loop n w rs s e level parent [] sel = Some x"
      by (auto simp: buildFileChangeTree.simps(2) split: option.splits)
    have "build_loop (Suc n) w rs s e level parent [] sel = Some x"
      by (rule ihL [OF x])
    then show ?thesis using a x by (simp add: buildFileChangeTree.simps(2))
  qed
  have F: "toFileChangeFolderNode (Suc (Suc n)) w rs s e level path parent sel = Some r"
    if a: "toFileChangeFolderNode (Suc n) w rs s e level path parent sel = Some r"
    for w rs s e level path parent sel r
  proof -
    from a obtain x where x: "buildFileChangeTree n w rs s e level
        (FolderParent (parent_groupId parent) (uri_resolve w (parentPath parent) path)) sel
        = Some x"
      by (auto simp: toFileChangeFolderNode.simps(2) Let_def split: option.splits)
    have "buildFileChangeTree (Suc n) w rs s e level
        (FolderParent (parent_groupId parent) (uri_resolve w (parentPath parent) path)) sel
        = Some x"
      by (rule ihB [OF x])
    then show ?thesis using a x by (simp add: toFileChangeFolderNode.simps(2) Let_def)
  qed
  show ?case using L B F by simp
qed

lemma build_loop_Suc:
  "build_loop n w rs fs e level parent result sel = Some r
   \<Longrightarrow> build_loop (Suc n) w rs fs e level parent result sel = Some r"
  by (rule fuel_Suc [THEN conjunct1, rule_format])

lemma buildFileChangeTree_Suc:
  "buildFileChangeTree n w rs s e level parent sel = Some r
   \<Longrightarrow> buildFileChangeTree (Suc n) w rs s e level parent sel = Some r"
  by (rule fuel_Suc [THEN conjunct2, THEN conjunct1, rule_format])

lemma toFileChangeFolderNode_Suc:
  "toFileChangeFolderNode n w rs s e level path parent sel = Some r
   \<Longrightarrow> toFileChangeFolderNode (Suc n) w rs s e level path parent sel = Some r"
  by (rule fuel_Suc [THEN conjunct2, THEN conjunct2, rule_format])

lemma build_loop_add:
  "build_loop n w rs fs e level parent result sel = Some r
   \<Longrightarrow> build_loop (n + k) w rs fs e level parent result sel = Some r"
proof (induction k)
  case 0
  then show ?case by simp
next
  case (Suc k)
  then have "build_loop (n + k) w rs fs e level parent result sel = Some r" by simp
  then have "build_loop (Suc (n + k)) w rs fs e level parent result sel = Some r"
    by (rule build_loop_Suc)
  then show ?case by simp
qed

lemma buildFileChangeTree_add:
  "buildFileChangeTree n w rs s e level parent sel = Some r
   \<Longrightarrow> buildFileChangeTree (n + k) w rs s e level parent sel = Some r"
proof (induction k)
  case 0
  then show ?case by simp
next
  case (Suc k)
  then have "buildFileChangeTree (n + k) w rs s e level parent sel = Some r" by simp
  then have "buildFileChangeTree (Suc (n + k)) w rs s e level parent sel = Some r"
    by (rule buildFileChangeTree_Suc)
  then show ?case by simp
qed

lemma toFileChangeFolderNode_add:
  "toFileChangeFolderNode n w rs s e level path parent sel = Some r
   \<Longrightarrow> toFileChangeFolderNode (n + k) w rs s e level path parent sel = Some r"
proof (induction k)
  case 0
  then show ?case by simp
next
  case (Suc k)
  then have "toFileChangeFolderNode (n + k) w rs s e level path parent sel = Some r" by simp
  then have "toFileChangeFolderNode (Suc (n + k)) w rs s e level path parent sel = Some r"
    by (rule toFileChangeFolderNode_Suc)
  then show ?case by simp
qed

lemma build_loop_mono:
  "build_loop n w rs fs e level parent result sel = Some r \<Longrightarrow> n \<le> m
   \<Longrightarrow> build_loop m w rs fs e level parent result sel = Some r"
  using build_loop_add [of n w rs fs e level parent result sel r "m - n"] by simp

lemma buildFileChangeTree_mono:
  "buildFileChangeTree n w rs s e level parent sel = Some r \<Longrightarrow> n \<le> m
   \<Longrightarrow> buildFileChangeTree m w rs s e level parent sel = Some r"
  using buildFileChangeTree_add [of n w rs s e level parent sel r "m - n"] by simp

lemma toFileChangeFolderNode_mono:
  "toFileChangeFolderNode n w rs s e level path parent sel = Some r \<Longrightarrow> n \<le> m
   \<Longrightarrow> toFileChangeFolderNode m w rs s e level path parent sel = Some r"
  using toFileChangeFolderNode_add [of n w rs s e level path parent sel r "m - n"] by simp

subsection \<open>The example of three resources\<close>

text \<open>
  Claim C1. For the resources at \<open>a/x.txt\<close>, \<open>a/y.txt\<close> and \<open>b.txt\<close> and a nesting
  threshold of 1, \<open>buildFileChangeTree\<close> returns two nodes: first a folder node with
  relative path \<open>a\<close> whose children are the file nodes of \<open>x.txt\<close> and \<open>y.txt\<close>, in
  that order, then the file node of \<open>b.txt\<close>. The order of the two files is the one
  \<open>localeCompare\<close> gives their URIs, so the URI of \<open>x.txt\<close> must not come after the
  one of \<open>y.txt\<close>.
\<close>

theorem tree_example:
  assumes thr: "nestingThreshold_or_1 w = 1"
    and xy: "localeCompare w (sourceUri x) (sourceUri y) \<le> 0"
  shows "\<exists>folder fx fy fb sel1.
           buildFileChangeTree 7 w
             [\<lparr>resource = x, pathParts = [''a'', ''x.txt'']\<rparr>,
              \<lparr>resource = y, pathParts = [''a'', ''y.txt'']\<rparr>,
              \<lparr>resource = b, pathParts = [''b.txt'']\<rparr>] 0 3 0 parent sel
             = Some (Inr ([folder, fb], sel1))
         \<and> FileChangeFolderNode_is folder \<and> node_path folder = ''a''
         \<and> node_children folder = [fx, fy]
         \<and> FileChangeNode_is fx \<and> node_sourceUri fx = sourceUri x
         \<and> FileChangeNode_is fy \<and> node_sourceUri fy = sourceUri y
         \<and> FileChangeNode_is fb \<and> node_sourceUri fb = sourceUri b"
  using thr xy
  by (simp add: eval_nat_numeral at_index_def slice_def doCompareNodes_def
      toFileChangeNode_def Let_def folderEnd_loop.simps thisLevel_loop.simps
      inline_loop.simps build_loop.simps buildFileChangeTree.simps
      toFileChangeFolderNode.simps split: prod.splits)

theorem tree_example_witness:
  "nestingThreshold_or_1
     (sample_widget \<lparr>defaultExpansion = None, nestingThreshold = Some 1\<rparr> tree (\<lambda>i. None)) = 1
   \<and> localeCompare
       (sample_widget \<lparr>defaultExpansion = None, nestingThreshold = Some 1\<rparr> tree (\<lambda>i. None))
       (sourceUri (sample_resource ''g'' ''/r/a/x.txt''))
       (sourceUri (sample_resource ''g'' ''/r/a/y.txt'')) \<le> 0
   \<and> (\<exists>folder fx fy fb sel1.
         buildFileChangeTree 7
           (sample_widget \<lparr>defaultExpansion = None, nestingThreshold = Some 1\<rparr> tree (\<lambda>i. None))
           [\<lparr>resource = sample_resource ''g'' ''/r/a/x.txt'', pathParts = [''a'', ''x.txt'']\<rparr>,
            \<lparr>resource = sample_resource ''g'' ''/r/a/y.txt'', pathParts = [''a'', ''y.txt'']\<rparr>,
            \<lparr>resource = sample_resource ''g'' ''/r/b.txt'', pathParts = [''b.txt'']\<rparr>]
           0 3 0 (GroupParent ''g'' (Some ''/r'')) None
           = Some (Inr ([folder, fb], sel1))
       \<and> FileChangeFolderNode_is folder \<and> node_path folder = ''a''
       \<and> node_children folder = [fx, fy]
       \<and> FileChangeNode_is fx \<and> node_sourceUri fx = ''/r/a/x.txt''
       \<and> FileChangeNode_is fy \<and> node_sourceUri fy = ''/r/a/y.txt''
       \<and> FileChangeNode_is fb \<and> node_sourceUri fb = ''/r/b.txt'')"
proof -
  let ?w = "sample_widget \<lparr>defaultExpansion = None, nestingThreshold = Some 1\<rparr> tree (\<lambda>i. None)"
  have thr: "nestingThreshold_or_1 ?w = 1"
    by (simp add: nestingThreshold_or_1_def sample_widget_def)
  have xy: "localeCompare ?w (sourceUri (sample_resource ''g'' ''/r/a/x.txt''))
              (sourceUri (sample_resource ''g'' ''/r/a/y.txt'')) \<le> 0"
    by (simp add: sample_widget_def sample_resource_def)
  show ?thesis
    using thr xy
      tree_example [OF thr xy, of "sample_resource ''g'' ''/r/b.txt''"
        "GroupParent ''g'' (Some ''/r'')" None]
    by (simp add: sample_resource_def)
qed

subsection \<open>A group whose provider has no root\<close>

text \<open>
  Claim C10. In tree mode a group whose provider has no \<open>rootUri\<close> gets a group node
  without children, whatever its resources are; in flat mode the same group gets one file
  node for each resource.
\<close>

theorem no_rootUri_drops_resources:
  assumes "groupProviderRootUri grp = None"
  shows "toGroupNode n (w\<lparr>viewMode := tree\<rparr>) grp r sel
           = Some (Inr (\<lparr>groupNodeId = groupId grp, groupNodeGroupId = groupId grp,
                         groupNodeChildren = [], groupNodeExpanded = True\<rparr>, sel))
       \<and> (\<exists>g sel1. toGroupNode n (w\<lparr>viewMode := flat\<rparr>) grp r sel = Some (Inr (g, sel1))
            \<and> length (groupNodeChildren g) = length (resources grp)
            \<and> (\<forall>i < length (resources grp).
                  FileChangeNode_is (groupNodeChildren g ! i)
                  \<and> node_sourceUri (groupNodeChildren g ! i) = sourceUri (resources grp ! i)))"
proof -
  obtain nodes sel1
    where a: "toFileChangeNodes (w\<lparr>viewMode := flat\<rparr>) (resources grp) sel = (nodes, sel1)"
    by (cases "toFileChangeNodes (w\<lparr>viewMode := flat\<rparr>) (resources grp) sel")
  have b: "nodes
         = map (\<lambda>r. fst (toFileChangeNode (w\<lparr>viewMode := flat\<rparr>) r None)) (resources grp)"
    using a toFileChangeNodes_fst [of "w\<lparr>viewMode := flat\<rparr>" "resources grp" sel] by simp
  have c: "\<forall>i < length (resources grp).
             FileChangeNode_is (nodes ! i)
             \<and> node_sourceUri (nodes ! i) = sourceUri (resources grp ! i)"
    using b toFileChangeNode_leaf by simp
  show ?thesis
    using assms a b c by (simp add: toGroupNode_def)
qed

theorem no_rootUri_drops_resources_witness:
  "groupProviderRootUri
     \<lparr>groupId = ''g'', hideWhenEmpty = False,
      resources = [sample_resource ''g'' ''/r/a/x.txt'', sample_resource ''g'' ''/r/b.txt''],
      groupProviderRootUri = None\<rparr> = None
   \<and> toGroupNode 9 (sample_widget \<lparr>defaultExpansion = None, nestingThreshold = None\<rparr> tree
                      (\<lambda>i. None))
       \<lparr>groupId = ''g'', hideWhenEmpty = False,
        resources = [sample_resource ''g'' ''/r/a/x.txt'', sample_resource ''g'' ''/r/b.txt''],
        groupProviderRootUri = None\<rparr> None None
      = Some (Inr (\<lparr>groupNodeId = ''g'', groupNodeGroupId = ''g'',
                    groupNodeChildren = [], groupNodeExpanded = True\<rparr>, None))
   \<and> toGroupNode 9 (sample_widget \<lparr>defaultExpansion = None, nestingThreshold = None\<rparr> flat
                      (\<lambda>i. None))
       \<lparr>groupId = ''g'', hideWhenEmpty = False,
        resources = [sample_resource ''g'' ''/r/a/x.txt'', sample_resource ''g'' ''/r/b.txt''],
        groupProviderRootUri = None\<rparr> None None
      = Some (Inr (\<lparr>groupNodeId = ''g'', groupNodeGroupId = ''g'',
                    groupNodeChildren =
                      [FileChangeNode ''g:/r/a/x.txt'' ''/r/a/x.txt'' None False,
                       FileChangeNode ''g:/r/b.txt'' ''/r/b.txt'' None False],
                    groupNodeExpanded = True\<rparr>, None))"
proof -
  let ?grp = "\<lparr>groupId = ''g'', hideWhenEmpty = False,
      resources = [sample_resource ''g'' ''/r/a/x.txt'', sample_resource ''g'' ''/r/b.txt''],
      groupProviderRootUri = None\<rparr>"
  let ?w = "sample_widget \<lparr>defaultExpansion = None, nestingThreshold = None\<rparr> tree (\<lambda>i. None)"
  have h: "groupProviderRootUri ?grp = None" by simp
  have flat: "toGroupNode 9 (?w\<lparr>viewMode := flat\<rparr>) ?grp None None
      = Some (Inr (\<lparr>groupNodeId = ''g'', groupNodeGroupId = ''g'',
                    groupNodeChildren =
                      [FileChangeNode ''g:/r/a/x.txt'' ''/r/a/x.txt'' None False,
                       FileChangeNode ''g:/r/b.txt'' ''/r/b.txt'' None False],
                    groupNodeExpanded = True\<rparr>, None))"
    by (simp add: toGroupNode_def sample_widget_def sample_resource_def toFileChangeNode_def)
  show ?thesis
    using h flat no_rootUri_drops_resources [OF h, of 9 ?w None None]
    by (simp add: sample_widget_def)
qed

subsection \<open>A resource that cannot be opened\<close>

text \<open>
  When \<open>resource.open()\<close> rejects, \<open>openResource\<close> catches the error, writes one line
  to the console and returns \<open>undefined\<close>; nothing is thrown, and the tree model with its
  selection and the open editors are as they were.
\<close>

lemma openResource_rejected:
  assumes "open r (editors s) = Inl e"
  shows "openResource DIFF_SCHEME open r s
           = (None, s\<lparr>console := console s @ [(''Failed to open a SCM resource'', e)]\<rparr>)
       \<and> model (snd (openResource DIFF_SCHEME open r s)) = model s
       \<and> editors (snd (openResource DIFF_SCHEME open r s)) = editors s"
  using assms by (simp add: openResource_def)

lemma openResource_rejected_example:
  "(\<lambda>r eds. Inl ''no such file'') (sample_resource ''g'' ''/r/b.txt'')
       (editors \<lparr>editors = [], console = [],
                 model = \<lparr>selectableNodes = [FileChangeNode ''g:/r/b.txt'' ''/r/b.txt'' None True],
                           selectedNode = Some 0\<rparr>\<rparr>)
     = (Inl ''no such file'' :: string + EditorWidget list)
   \<and> openResource ''diff'' (\<lambda>r eds. Inl ''no such file'') (sample_resource ''g'' ''/r/b.txt'')
       \<lparr>editors = [], console = [],
        model = \<lparr>selectableNodes = [FileChangeNode ''g:/r/b.txt'' ''/r/b.txt'' None True],
                  selectedNode = Some 0\<rparr>\<rparr>
     = (None,
        \<lparr>editors = [], console = [(''Failed to open a SCM resource'', ''no such file'')],
         model = \<lparr>selectableNodes = [FileChangeNode ''g:/r/b.txt'' ''/r/b.txt'' None True],
                   selectedNode = Some 0\<rparr>\<rparr>)"
  using openResource_rejected
    [of "\<lambda>r eds. Inl ''no such file''" "sample_resource ''g'' ''/r/b.txt''"
        "\<lparr>editors = [], console = [],
          model = \<lparr>selectableNodes = [FileChangeNode ''g:/r/b.txt'' ''/r/b.txt'' None True],
                    selectedNode = Some 0\<rparr>\<rparr>" "''no such file''" "''diff''"]
  by simp

text \<open>
  The two key handlers on a selected file whose resource cannot be opened.
  \<open>handleRight\<close> returns with the failure logged and nothing else changed. \<open>handleLeft\<close>
  has its \<open>return\<close> inside the \<open>if (widget)\<close> block, so it goes on to the inherited
  handler with the model.
\<close>

lemma handlers_open_rejected:
  assumes repo: "selectedRepository s = Some repository"
    and sel: "selectedNode (model (bench s)) = Some i"
    and isfile: "FileChangeNode_is (selectableNodes (model (bench s)) ! i)"
    and res: "getResourceFromNode s i = Inr (Some r)"
    and rej: "open r (editors (bench s)) = Inl e"
  shows "handleRight DIFF_SCHEME open nav super_handleRight s
           = Inr (s\<lparr>bench := (bench s)\<lparr>console := console (bench s)
                                   @ [(''Failed to open a SCM resource'', e)]\<rparr>\<rparr>)"
    and "handleLeft DIFF_SCHEME open nav super_handleLeft s
           = Inr (s\<lparr>bench := (bench s)\<lparr>console := console (bench s)
                                   @ [(''Failed to open a SCM resource'', e)],
                                 model := super_handleLeft (model (bench s))\<rparr>\<rparr>)"
  using assms
  by (simp_all add: handleRight_def handleLeft_def openResource_def
      del: FileChangeNode_is.simps)

text \<open>
  Claim C7. The claim asks that a rejected \<open>resource.open()\<close> is caught and logged, that
  \<open>openResource\<close> returns \<open>undefined\<close>, and that navigation and selection stay as they
  were. \<open>openResource\<close> and \<open>handleRight\<close> do that; the left key does not. With the file
  \<open>x.txt\<close> selected under the expanded folder \<open>a\<close> and an \<open>open()\<close> that rejects,
  \<open>handleLeft\<close> logs the failure and passes the key on to the inherited handler, which
  moves the selection from the file to the folder \<open>a\<close>; \<open>handleRight\<close> on the same state
  leaves the selection on the file. The comment of \<open>handleLeft\<close> says that from a file the
  left key cannot move up through the parent folders.
\<close>

theorem left_key_after_failed_open:
  "selectedNode (model (bench sample_key_state)) = Some 1
   \<and> selectableNodes (model (bench sample_key_state)) ! 1
       = FileChangeNode ''g:/r/a/x.txt'' ''/r/a/x.txt'' None True
   \<and> getResourceFromNode sample_key_state 1 = Inr (Some (sample_resource ''g'' ''/r/a/x.txt''))
   \<and> openResource ''diff'' (\<lambda>r eds. Inl ''no such file'') (sample_resource ''g'' ''/r/a/x.txt'')
         (bench sample_key_state)
       = (None, \<lparr>editors = [],
                 console = [(''Failed to open a SCM resource'', ''no such file'')],
                 model = sample_model True\<rparr>)
   \<and> handleLeft ''diff'' (\<lambda>r eds. Inl ''no such file'') nav TreeWidget_handleLeft
         sample_key_state
       = Inr (sample_key_state
               \<lparr>bench := \<lparr>editors = [],
                           console = [(''Failed to open a SCM resource'', ''no such file'')],
                           model = (sample_model True)\<lparr>selectedNode := Some 0\<rparr>\<rparr>\<rparr>)
   \<and> selectableNodes (sample_model True) ! 0
       = FileChangeFolderNode ''g:/r/a'' ''g'' ''a'' ''/r/a''
           [FileChangeNode ''g:/r/a/x.txt'' ''/r/a/x.txt'' None True] True False
   \<and> handleRight ''diff'' (\<lambda>r eds. Inl ''no such file'') nav super_handleRight
         sample_key_state
       = Inr (sample_key_state
               \<lparr>bench := \<lparr>editors = [],
                           console = [(''Failed to open a SCM resource'', ''no such file'')],
                           model = sample_model True\<rparr>\<rparr>)"
  by (simp add: handleLeft_def handleRight_def getResourceFromNode_def openResource_def
      TreeWidget_handleLeft_def parentFolder_def selectNode_def sample_key_state_def
      sample_nested_provider_def sample_resource_def sample_model_def sample_forest_def
      Let_def eval_nat_numeral upt_rec)

subsection \<open>The stored view mode\<close>

text \<open>
  Claim C8. \<open>restoreState\<close> of a state object sets the view mode to \<open>tree\<close> when the
  \<open>mode\<close> property is the string \<open>tree\<close> and to \<open>flat\<close> for every other value of the
  property, a missing one included, and it does not throw. So restoring what
  \<open>storeState\<close> returned, on any other instance, gives the view mode that was stored.
\<close>

theorem restoreState_viewMode:
  "restoreState super_restoreState (JObject entries) w
     = Inr (w\<lparr>viewMode := (if map_of entries ''mode'' = Some (JString ''tree'') then tree else flat),
              getNode := super_restoreState
                 (case map_of entries ''tree'' of None \<Rightarrow> JUndefined | Some v \<Rightarrow> v) (getNode w)\<rparr>)
   \<and> (\<exists>w1. restoreState super_restoreState
                (fst (storeState super_storeState stringify w)) fresh = Inr w1
            \<and> viewMode w1 = viewMode w)"
  by (cases "viewMode w") (auto simp: restoreState_def storeState_def Let_def split: option.splits)

subsection \<open>Runs of resources under one folder\<close>




subsection \<open>Properties kept by the builder\<close>

text \<open>
  A property of nodes that every file node has, and that a folder node has once the nodes
  it was sorted from have it, holds of every node the builder returns.
\<close>

lemma build_invariant:
  fixes P :: "change_node \<Rightarrow> bool"
  assumes leaf: "\<And>r sel. P (fst (toFileChangeNode w r sel))"
    and folder: "\<And>path parent raw.
      \<forall>c \<in> set raw. P c \<Longrightarrow>
      P (FileChangeFolderNode
           (parent_groupId parent @ '':'' @ uri_resolve w (parentPath parent) path)
           (parent_groupId parent) path (uri_resolve w (parentPath parent) path)
           (array_sort (doCompareNodes w) raw)
           (if ExpandableTreeNode_is
                 (getNode w (parent_groupId parent @ '':'' @ uri_resolve w (parentPath parent) path))
            then oldNode_expanded
                 (getNode w (parent_groupId parent @ '':'' @ uri_resolve w (parentPath parent) path))
            else defaultExpansion_flag w)
           (SelectableTreeNode_is
                 (getNode w (parent_groupId parent @ '':'' @ uri_resolve w (parentPath parent) path))
            \<and> oldNode_selected
                 (getNode w (parent_groupId parent @ '':'' @ uri_resolve w (parentPath parent) path))))"
  shows "\<And>rs fs e level parent result sel out sel1.
            build_loop n w rs fs e level parent result sel = Some (Inr (out, sel1))
            \<Longrightarrow> \<forall>c \<in> set result. P c \<Longrightarrow> \<forall>c \<in> set out. P c"
    and "\<And>rs s e level parent sel out sel1.
            buildFileChangeTree n w rs s e level parent sel = Some (Inr (out, sel1))
            \<Longrightarrow> \<exists>raw. out = array_sort (doCompareNodes w) raw \<and> (\<forall>c \<in> set raw. P c)"
    and "\<And>rs s e level path parent sel f sel1.
            toFileChangeFolderNode n w rs s e level path parent sel = Some (Inr (f, sel1))
            \<Longrightarrow> P f"
proof (induction n)
  case 0
  { case 1 then show ?case by simp }
  { case 2 then show ?case by simp }
  { case 3 then show ?case by simp }
next
  case (Suc n)
  note ihL = Suc.IH(1)
  note ihB = Suc.IH(2)
  note ihF = Suc.IH(3)
  have L: "\<forall>c \<in> set out. P c"
    if a: "build_loop (Suc n) w rs fs e level parent result sel = Some (Inr (out, sel1))"
      and res: "\<forall>c \<in> set result. P c"
    for rs fs e level parent result sel out sel1
  proof (cases "fs < e")
    case False
    then show ?thesis using a res by (simp add: build_loop_done)
  next
    case True
    show ?thesis
    proof (cases "at_index rs fs")
      case None
      then show ?thesis using a True by (simp add: build_loop_out_of_range)
    next
      case (Some first)
      show ?thesis
      proof (cases "int level = int (length (pathParts first)) - 1")
        case isleaf: True
        have "\<forall>c \<in> set (result @ [fst (toFileChangeNode w (resource first) sel)]). P c"
          using res leaf by simp
        moreover have "build_loop n w rs (Suc fs) e level parent
            (result @ [fst (toFileChangeNode w (resource first) sel)])
            (snd (toFileChangeNode w (resource first) sel)) = Some (Inr (out, sel1))"
          using a by (simp only: build_loop_leaf [OF True Some isleaf])
        ultimately show ?thesis using ihL by iprover
      next
        case nonleaf: False
        show ?thesis
        proof (cases "folderEnd_loop rs e level first (fs + 1)")
          case (Inl err)
          then show ?thesis using a by (simp add: build_loop_run_error [OF True Some nonleaf Inl])
        next
          case (Inr fe)
          have run: "\<forall>j. fs \<le> j \<and> j < fe \<longrightarrow> j < length rs"
          proof (intro allI impI)
            fix j assume j: "fs \<le> j \<and> j < fe"
            have "fs < length rs" using Some by (auto simp: at_index_def split: if_splits)
            moreover have "fs + 1 \<le> j \<Longrightarrow> j < length rs"
              using folderEnd_loop_bounds [OF Inr] True j by simp
            ultimately show "j < length rs" using j by (cases "j = fs") auto
          qed
          show ?thesis
          proof (cases "int fe - int fs < nestingThreshold_or_1 w")
            case small: True
            from inline_loop_spec [OF run, of w result sel]
            obtain sel2 where i: "inline_loop w rs fs fe result sel
                = Inr (result @ map (\<lambda>j. fst (toFileChangeNode w (resource (rs ! j)) None))
                     [fs..<fe], sel2)" by (elim exE)
            have b: "build_loop n w rs fe e level parent
                (result @ map (\<lambda>j. fst (toFileChangeNode w (resource (rs ! j)) None)) [fs..<fe])
                sel2 = Some (Inr (out, sel1))"
              using a i by (simp add: build_loop_inline [OF True Some nonleaf Inr small])
            have "\<forall>c \<in> set (result
                @ map (\<lambda>j. fst (toFileChangeNode w (resource (rs ! j)) None)) [fs..<fe]). P c"
              using res leaf by auto
            then show ?thesis by (rule ihL [OF b])
          next
            case big: False
            show ?thesis
            proof (cases "at_index rs (fe - 1)")
              case None
              then show ?thesis using a
                by (simp add: build_loop_no_last [OF True Some nonleaf Inr big None])
            next
              case last: (Some lastFileChange)
              let ?t = "thisLevel_loop (pathParts first) (pathParts lastFileChange) (level + 1)"
              let ?p = "join_slash (slice (pathParts first) level ?t)"
              from a obtain f sel2
                where f: "toFileChangeFolderNode n w rs fs fe ?t ?p parent sel
                            = Some (Inr (f, sel2))"
                  and b: "build_loop n w rs fe e level parent (result @ [f]) sel2
                            = Some (Inr (out, sel1))"
                by (auto simp: build_loop_folder [OF True Some nonleaf Inr big last]
                    split: option.splits sum.splits prod.splits)
              have "P f" by (rule ihF [OF f])
              then have "\<forall>c \<in> set (result @ [f]). P c" using res by simp
              then show ?thesis by (rule ihL [OF b])
            qed
          qed
        qed
      qed
    qed
  qed
  have B: "\<exists>raw. out = array_sort (doCompareNodes w) raw \<and> (\<forall>c \<in> set raw. P c)"
    if a: "buildFileChangeTree (Suc n) w rs s e level parent sel = Some (Inr (out, sel1))"
    for rs s e level parent sel out sel1
  proof -
    from a obtain raw where x: "build_loop n w rs s e level parent [] sel = Some (Inr (raw, sel1))"
      and o: "out = array_sort (doCompareNodes w) raw"
      by (auto simp: buildFileChangeTree.simps(2) split: option.splits sum.splits prod.splits)
    have "\<forall>c \<in> set []. P c" by simp
    then have "\<forall>c \<in> set raw. P c" by (rule ihL [OF x])
    then show ?thesis using o by (intro exI conjI)
  qed
  have F: "P f"
    if a: "toFileChangeFolderNode (Suc n) w rs s e level path parent sel = Some (Inr (f, sel1))"
    for rs s e level path parent sel f sel1
  proof -
    let ?u = "uri_resolve w (parentPath parent) path"
    let ?i = "parent_groupId parent @ '':'' @ ?u"
    from a obtain children
      where x: "buildFileChangeTree n w rs s e level (FolderParent (parent_groupId parent) ?u) sel
                  = Some (Inr (children, sel1))"
      and f: "f = FileChangeFolderNode ?i (parent_groupId parent) path ?u children
                (if ExpandableTreeNode_is (getNode w ?i) then oldNode_expanded (getNode w ?i)
                 else defaultExpansion_flag w)
                (SelectableTreeNode_is (getNode w ?i) \<and> oldNode_selected (getNode w ?i))"
      by (auto simp: toFileChangeFolderNode.simps(2) Let_def
          split: option.splits sum.splits prod.splits)
    from ihB [OF x] obtain raw
      where raw: "children = array_sort (doCompareNodes w) raw" "\<forall>c \<in> set raw. P c"
      by (elim exE conjE)
    show ?thesis unfolding f raw(1) by (rule folder [OF raw(2)])
  qed
  { case 1 then show ?case by (rule L) }
  { case 2 then show ?case by (rule B) }
  { case 3 then show ?case by (rule F) }
qed


lemma result_case_Inr:
  assumes "(case x of None \<Rightarrow> None | Some (Inl e) \<Rightarrow> Some (Inl e)
            | Some (Inr (a, s)) \<Rightarrow> Some (Inr (f a s))) = Some (Inr y)"
  shows "\<exists>a s. x = Some (Inr (a, s)) \<and> y = f a s"
  using assms by (auto split: option.splits sum.splits prod.splits)

lemma toGroupNode_children:
  fixes P :: "change_node \<Rightarrow> bool"
  assumes leaf: "\<And>r sel. P (fst (toFileChangeNode w r sel))"
    and sorted: "\<And>m rs s e level parent sel out sel1.
      buildFileChangeTree m w rs s e level parent sel = Some (Inr (out, sel1))
      \<Longrightarrow> \<exists>raw. out = array_sort (doCompareNodes w) raw \<and> (\<forall>c \<in> set raw. P c)"
    and built: "toGroupNode n w grp r sel = Some (Inr (g, sel1))"
  shows "groupNodeId g = groupId grp \<and> groupNodeGroupId g = groupId grp \<and> groupNodeExpanded g
       \<and> (\<forall>c \<in> set (groupNodeChildren g). P c)
       \<and> (viewMode w = tree \<longrightarrow>
             (\<exists>raw. groupNodeChildren g = array_sort (doCompareNodes w) raw))
       \<and> (viewMode w = flat \<longrightarrow>
             groupNodeChildren g = map (\<lambda>r. fst (toFileChangeNode w r None)) (resources grp))"
proof (cases "viewMode w")
  case flat
  obtain nodes sel2 where a: "toFileChangeNodes w (resources grp) sel = (nodes, sel2)"
    by (cases "toFileChangeNodes w (resources grp) sel")
  have b: "nodes = map (\<lambda>r. fst (toFileChangeNode w r None)) (resources grp)"
    using a toFileChangeNodes_fst [of w "resources grp" sel] by simp
  have g: "g = \<lparr>groupNodeId = groupId grp, groupNodeGroupId = groupId grp,
                groupNodeChildren = nodes, groupNodeExpanded = True\<rparr>"
    using built flat a by (simp add: toGroupNode_def)
  have "\<forall>c \<in> set nodes. P c" unfolding b using leaf by simp
  then show ?thesis using g b flat by simp
next
  case tree
  show ?thesis
  proof (cases "truthy (groupProviderRootUri grp)")
    case False
    then have g: "g = \<lparr>groupNodeId = groupId grp, groupNodeGroupId = groupId grp,
                groupNodeChildren = [], groupNodeExpanded = True\<rparr>"
      using built tree by (cases "groupProviderRootUri grp") (simp_all add: toGroupNode_def)
    have "\<exists>raw. [] = array_sort (doCompareNodes w) raw"
      by (rule exI [of _ "[]"]) simp
    then show ?thesis using g tree by simp
  next
    case True
    then obtain u where u: "groupProviderRootUri grp = Some u" "u \<noteq> []"
      by (cases "groupProviderRootUri grp") auto
    have "(case buildFileChangeTree n w (resourcePaths_of w u (resources grp)) 0
                  (length (resources grp)) 0 (GroupParent (groupId grp) r) sel of
             None \<Rightarrow> None
           | Some (Inl e) \<Rightarrow> Some (Inl e)
           | Some (Inr (nodes, sel2)) \<Rightarrow>
               Some (Inr (\<lparr>groupNodeId = groupId grp, groupNodeGroupId = groupId grp,
                            groupNodeChildren = [], groupNodeExpanded = True\<rparr>
                          \<lparr>groupNodeChildren := nodes\<rparr>, sel2)))
          = Some (Inr (g, sel1))"
      using built tree u by (simp add: toGroupNode_def)
    from result_case_Inr [OF this] obtain nodes
      where x: "buildFileChangeTree n w (resourcePaths_of w u (resources grp)) 0
                  (length (resources grp)) 0 (GroupParent (groupId grp) r) sel
                = Some (Inr (nodes, sel1))"
        and g: "g = \<lparr>groupNodeId = groupId grp, groupNodeGroupId = groupId grp,
                groupNodeChildren = nodes, groupNodeExpanded = True\<rparr>"
      by (elim exE conjE) simp
    from sorted [OF x] obtain raw
      where raw: "nodes = array_sort (doCompareNodes w) raw" "\<forall>c \<in> set raw. P c"
      by (elim exE conjE)
    have "\<forall>c \<in> set nodes. P c" using raw by (simp add: set_array_sort)
    moreover have "\<exists>raw. nodes = array_sort (doCompareNodes w) raw"
      using raw(1) by (rule exI)
    ultimately show ?thesis using g tree by simp
  qed
qed

lemma toGroupNodes_members:
  "toGroupNodes n w gs r sel = Some (Inr (gns, sel1)) \<Longrightarrow>
   length gns = length gs
   \<and> (\<forall>i < length gs. \<exists>sel2 sel3. toGroupNode n w (gs ! i) r sel2 = Some (Inr (gns ! i, sel3)))"
proof (induction gs arbitrary: sel gns)
  case Nil
  then show ?case by simp
next
  case (Cons grp gs)
  have "(case toGroupNode n w grp r sel of
           None \<Rightarrow> None
         | Some (Inl e) \<Rightarrow> Some (Inl e)
         | Some (Inr (groupNode, sel2)) \<Rightarrow>
             (case toGroupNodes n w gs r sel2 of
                None \<Rightarrow> None
              | Some (Inl e) \<Rightarrow> Some (Inl e)
              | Some (Inr (groupNodes, sel3)) \<Rightarrow> Some (Inr (groupNode # groupNodes, sel3))))
        = Some (Inr (gns, sel1))"
    using Cons.prems by simp
  then obtain g sel2 where a: "toGroupNode n w grp r sel = Some (Inr (g, sel2))"
    and rest0: "(case toGroupNodes n w gs r sel2 of
                None \<Rightarrow> None
              | Some (Inl e) \<Rightarrow> Some (Inl e)
              | Some (Inr (groupNodes, sel3)) \<Rightarrow> Some (Inr (g # groupNodes, sel3)))
            = Some (Inr (gns, sel1))"
    by (cases "toGroupNode n w grp r sel") (auto split: sum.splits prod.splits)
  from result_case_Inr [OF rest0] obtain rest
    where b: "toGroupNodes n w gs r sel2 = Some (Inr (rest, sel1))"
      and c: "gns = g # rest"
    by (elim exE conjE) simp
  have ih: "length rest = length gs
     \<and> (\<forall>i < length gs. \<exists>sel2 sel3. toGroupNode n w (gs ! i) r sel2 = Some (Inr (rest ! i, sel3)))"
    by (rule Cons.IH [OF b])
  have "\<And>i. i < length (grp # gs) \<Longrightarrow>
      \<exists>sel2 sel3. toGroupNode n w ((grp # gs) ! i) r sel2 = Some (Inr ((g # rest) ! i, sel3))"
  proof -
    fix i assume i: "i < length (grp # gs)"
    show "\<exists>sel2 sel3. toGroupNode n w ((grp # gs) ! i) r sel2 = Some (Inr ((g # rest) ! i, sel3))"
    proof (cases i)
      case 0
      then show ?thesis using a by auto
    next
      case (Suc j)
      then show ?thesis using ih i by simp
    qed
  qed
  then show ?case using c ih by simp
qed

lemma createTree_groups:
  assumes "createTree n w provider sel = Some (Inr (root, sel1))"
  shows "rootNodeRootUri root = rootUri provider
     \<and> length (rootNodeChildren root)
         = length [grp \<leftarrow> groups provider. resources grp \<noteq> [] \<or> \<not> hideWhenEmpty grp]
     \<and> (\<forall>i < length (rootNodeChildren root). \<exists>sel2 sel3.
           toGroupNode n w ([grp \<leftarrow> groups provider. resources grp \<noteq> [] \<or> \<not> hideWhenEmpty grp] ! i)
             (rootUri provider) sel2 = Some (Inr (rootNodeChildren root ! i, sel3)))"
proof -
  let ?gs = "[grp \<leftarrow> groups provider. resources grp \<noteq> [] \<or> \<not> hideWhenEmpty grp]"
  have "(case toGroupNodes n w ?gs (rootUri provider) sel of
           None \<Rightarrow> None
         | Some (Inl e) \<Rightarrow> Some (Inl e)
         | Some (Inr (groupNodes, sel2)) \<Rightarrow>
             Some (Inr (\<lparr>rootNodeId = ''file-change-tree-root'',
                          rootNodeRootUri = rootUri provider,
                          rootNodeChildren = []\<rparr>
                        \<lparr>rootNodeChildren := groupNodes\<rparr>, sel2)))
        = Some (Inr (root, sel1))"
    using assms by (simp add: createTree_def)
  from result_case_Inr [OF this] obtain gns
    where a: "toGroupNodes n w ?gs (rootUri provider) sel = Some (Inr (gns, sel1))"
      and b: "root = \<lparr>rootNodeId = ''file-change-tree-root'', rootNodeRootUri = rootUri provider,
                   rootNodeChildren = gns\<rparr>"
    by (elim exE conjE) simp
  show ?thesis using toGroupNodes_members [OF a] b by simp
qed

lemma doCompareNodes_before: "doCompareNodes w a b \<le> 0 \<longleftrightarrow> node_before w a b"
  by (cases "FileChangeFolderNode_is a"; cases "FileChangeFolderNode_is b")
    (simp_all add: doCompareNodes_def node_before_def)

lemma sorted_by_doCompareNodes:
  assumes total: "\<forall>a b. localeCompare w a b \<le> 0 \<or> localeCompare w b a \<le> 0"
    and trans: "\<forall>a b c. localeCompare w a b \<le> 0 \<longrightarrow> localeCompare w b c \<le> 0
                  \<longrightarrow> localeCompare w a c \<le> 0"
  shows "sorted_wrt (node_before w) (array_sort (doCompareNodes w) raw)"
proof -
  have t: "\<And>a b. doCompareNodes w a b \<le> 0 \<or> doCompareNodes w b a \<le> 0"
  proof -
    fix a b
    show "doCompareNodes w a b \<le> 0 \<or> doCompareNodes w b a \<le> 0"
      using total [rule_format, of "node_sourceUri a" "node_sourceUri b"]
      by (cases "FileChangeFolderNode_is a"; cases "FileChangeFolderNode_is b")
        (simp_all add: doCompareNodes_def)
  qed
  have tr: "\<And>a b c. doCompareNodes w a b \<le> 0 \<Longrightarrow> doCompareNodes w b c \<le> 0
                \<Longrightarrow> doCompareNodes w a c \<le> 0"
  proof -
    fix a b c
    assume "doCompareNodes w a b \<le> 0" "doCompareNodes w b c \<le> 0"
    then show "doCompareNodes w a c \<le> 0"
      using trans [rule_format, of "node_sourceUri a" "node_sourceUri b" "node_sourceUri c"]
      by (cases "FileChangeFolderNode_is a"; cases "FileChangeFolderNode_is b";
          cases "FileChangeFolderNode_is c") (simp_all add: doCompareNodes_def)
  qed
  have "sorted_wrt (\<lambda>a b. doCompareNodes w a b \<le> 0) (array_sort (doCompareNodes w) raw)"
    by (rule sorted_array_sort [of "doCompareNodes w", OF t tr])
  then show ?thesis by (simp add: doCompareNodes_before)
qed

subsection \<open>The order of siblings\<close>

lemma siblings_ordered_built:
  assumes total: "\<forall>a b. localeCompare w a b \<le> 0 \<or> localeCompare w b a \<le> 0"
    and trans: "\<forall>a b c. localeCompare w a b \<le> 0 \<longrightarrow> localeCompare w b c \<le> 0
                  \<longrightarrow> localeCompare w a c \<le> 0"
    and built: "buildFileChangeTree m w rs s e level parent sel = Some (Inr (out, sel1))"
  shows "\<exists>raw. out = array_sort (doCompareNodes w) raw \<and> (\<forall>c \<in> set raw. siblings_ordered w c)"
proof (rule build_invariant(2) [where P = "siblings_ordered w", OF _ _ built])
  fix r sel
  show "siblings_ordered w (fst (toFileChangeNode w r sel))"
    by (simp add: toFileChangeNode_def Let_def)
next
  fix path parent raw
  assume raw: "\<forall>c \<in> set raw. siblings_ordered w c"
  have "sorted_wrt (node_before w) (array_sort (doCompareNodes w) raw)"
    by (rule sorted_by_doCompareNodes [OF total trans])
  then show "siblings_ordered w
     (FileChangeFolderNode
           (parent_groupId parent @ '':'' @ uri_resolve w (parentPath parent) path)
           (parent_groupId parent) path (uri_resolve w (parentPath parent) path)
           (array_sort (doCompareNodes w) raw)
           (if ExpandableTreeNode_is
                 (getNode w (parent_groupId parent @ '':'' @ uri_resolve w (parentPath parent) path))
            then oldNode_expanded
                 (getNode w (parent_groupId parent @ '':'' @ uri_resolve w (parentPath parent) path))
            else defaultExpansion_flag w)
           (SelectableTreeNode_is
                 (getNode w (parent_groupId parent @ '':'' @ uri_resolve w (parentPath parent) path))
            \<and> oldNode_selected
                 (getNode w (parent_groupId parent @ '':'' @ uri_resolve w (parentPath parent) path))))"
    using raw by (simp add: set_array_sort)
qed

lemma sample_compare_total: "sample_compare a b \<le> 0 \<or> sample_compare b a \<le> 0"
  by (induction a b rule: sample_compare.induct) auto

lemma sample_compare_trans:
  "sample_compare a b \<le> 0 \<Longrightarrow> sample_compare b c \<le> 0 \<Longrightarrow> sample_compare a c \<le> 0"
proof (induction a b arbitrary: c rule: sample_compare.induct)
  case 1
  then show ?case by simp
next
  case (2 b bs)
  then show ?case by (cases c) simp_all
next
  case (3 a as)
  then show ?case by simp
next
  case (4 a as b bs)
  show ?case
  proof (cases c)
    case Nil
    then show ?thesis using "4.prems" by simp
  next
    case (Cons x xs)
    show ?thesis
    proof (cases "a = b")
      case True
      then show ?thesis using "4.prems" "4.IH" [of xs] Cons by (auto split: if_splits)
    next
      case False
      then have ab: "(of_char a :: nat) < of_char b" using "4.prems"(1) by (simp split: if_splits)
      show ?thesis
      proof (cases "b = x")
        case True
        then show ?thesis using ab False Cons by simp
      next
        case bx: False
        then have "(of_char b :: nat) < of_char x" using "4.prems"(2) Cons by (simp split: if_splits)
        then have "(of_char a :: nat) < of_char x" using ab by simp
        then show ?thesis using Cons by auto
      qed
    qed
  qed
qed

text \<open>
  Claim C2, as the code has it. In tree mode the children of every group node and of every
  folder node below it are ordered: folder nodes before file nodes, and nodes of one kind
  in ascending \<open>localeCompare\<close> order of their \<open>sourceUri\<close>, for a \<open>localeCompare\<close>
  that is total and transitive. In flat mode \<open>toGroupNode\<close> does not sort: the children
  of a group node are the file nodes of the group's resources in the order the provider
  gives them.
\<close>

theorem siblings_ordered_in_tree_mode:
  assumes total: "\<forall>a b. localeCompare w a b \<le> 0 \<or> localeCompare w b a \<le> 0"
    and trans: "\<forall>a b c. localeCompare w a b \<le> 0 \<longrightarrow> localeCompare w b c \<le> 0
                  \<longrightarrow> localeCompare w a c \<le> 0"
    and built: "createTree n w provider sel = Some (Inr (root, sel1))"
  shows "(viewMode w = tree \<longrightarrow>
            (\<forall>g \<in> set (rootNodeChildren root).
               sorted_wrt (node_before w) (groupNodeChildren g)
               \<and> (\<forall>c \<in> set (groupNodeChildren g). siblings_ordered w c)))
       \<and> (viewMode w = flat \<longrightarrow>
            map (\<lambda>g. map node_sourceUri (groupNodeChildren g)) (rootNodeChildren root)
              = map (\<lambda>grp. map sourceUri (resources grp))
                  [grp \<leftarrow> groups provider. resources grp \<noteq> [] \<or> \<not> hideWhenEmpty grp]
            \<and> (\<forall>g \<in> set (rootNodeChildren root).
                  list_all FileChangeNode_is (groupNodeChildren g)))"
proof -
  let ?gs = "[grp \<leftarrow> groups provider. resources grp \<noteq> [] \<or> \<not> hideWhenEmpty grp]"
  note groups = createTree_groups [OF built]
  have len: "length (rootNodeChildren root) = length ?gs" using groups by simp
  have each: "\<And>i. i < length (rootNodeChildren root) \<Longrightarrow>
      (\<forall>c \<in> set (groupNodeChildren (rootNodeChildren root ! i)). siblings_ordered w c)
      \<and> (viewMode w = tree \<longrightarrow>
            (\<exists>raw. groupNodeChildren (rootNodeChildren root ! i)
                     = array_sort (doCompareNodes w) raw))
      \<and> (viewMode w = flat \<longrightarrow>
            groupNodeChildren (rootNodeChildren root ! i)
              = map (\<lambda>r. fst (toFileChangeNode w r None)) (resources (?gs ! i)))"
  proof -
    fix i assume i: "i < length (rootNodeChildren root)"
    from groups i obtain sel2 sel3
      where g: "toGroupNode n w (?gs ! i) (rootUri provider) sel2
                  = Some (Inr (rootNodeChildren root ! i, sel3))"
      by blast
    have all: "groupNodeId (rootNodeChildren root ! i) = groupId (?gs ! i)
       \<and> groupNodeGroupId (rootNodeChildren root ! i) = groupId (?gs ! i)
       \<and> groupNodeExpanded (rootNodeChildren root ! i)
       \<and> (\<forall>c \<in> set (groupNodeChildren (rootNodeChildren root ! i)). siblings_ordered w c)
       \<and> (viewMode w = tree \<longrightarrow>
             (\<exists>raw. groupNodeChildren (rootNodeChildren root ! i)
                      = array_sort (doCompareNodes w) raw))
       \<and> (viewMode w = flat \<longrightarrow>
             groupNodeChildren (rootNodeChildren root ! i)
               = map (\<lambda>r. fst (toFileChangeNode w r None)) (resources (?gs ! i)))"
    proof (rule toGroupNode_children [where P = "siblings_ordered w", OF _ _ g])
      fix r sel
      show "siblings_ordered w (fst (toFileChangeNode w r sel))"
        by (simp add: toFileChangeNode_def Let_def)
    next
      fix m rs s e level parent sel out sel1
      assume "buildFileChangeTree m w rs s e level parent sel = Some (Inr (out, sel1))"
      then show "\<exists>raw. out = array_sort (doCompareNodes w) raw
                  \<and> (\<forall>c \<in> set raw. siblings_ordered w c)"
        by (rule siblings_ordered_built [OF total trans])
    qed
    show "(\<forall>c \<in> set (groupNodeChildren (rootNodeChildren root ! i)). siblings_ordered w c)
      \<and> (viewMode w = tree \<longrightarrow>
            (\<exists>raw. groupNodeChildren (rootNodeChildren root ! i)
                     = array_sort (doCompareNodes w) raw))
      \<and> (viewMode w = flat \<longrightarrow>
            groupNodeChildren (rootNodeChildren root ! i)
              = map (\<lambda>r. fst (toFileChangeNode w r None)) (resources (?gs ! i)))"
      using all by (elim conjE) (intro conjI; assumption)
  qed
  have t: "viewMode w = tree \<longrightarrow>
            (\<forall>g \<in> set (rootNodeChildren root).
               sorted_wrt (node_before w) (groupNodeChildren g)
               \<and> (\<forall>c \<in> set (groupNodeChildren g). siblings_ordered w c))"
  proof (intro impI ballI)
    fix g assume m: "viewMode w = tree" and g: "g \<in> set (rootNodeChildren root)"
    from g obtain i where i: "i < length (rootNodeChildren root)" "g = rootNodeChildren root ! i"
      by (auto simp: in_set_conv_nth)
    from each [OF i(1)] m obtain raw
      where raw: "groupNodeChildren g = array_sort (doCompareNodes w) raw"
        and all: "\<forall>c \<in> set (groupNodeChildren g). siblings_ordered w c"
      unfolding i(2) by blast
    have "sorted_wrt (node_before w) (groupNodeChildren g)"
      unfolding raw by (rule sorted_by_doCompareNodes [OF total trans])
    then show "sorted_wrt (node_before w) (groupNodeChildren g)
               \<and> (\<forall>c \<in> set (groupNodeChildren g). siblings_ordered w c)"
      using all by simp
  qed
  have f: "viewMode w = flat \<longrightarrow>
            map (\<lambda>g. map node_sourceUri (groupNodeChildren g)) (rootNodeChildren root)
              = map (\<lambda>grp. map sourceUri (resources grp)) ?gs
            \<and> (\<forall>g \<in> set (rootNodeChildren root).
                  list_all FileChangeNode_is (groupNodeChildren g))"
  proof (intro impI conjI ballI)
    assume m: "viewMode w = flat"
    show "map (\<lambda>g. map node_sourceUri (groupNodeChildren g)) (rootNodeChildren root)
              = map (\<lambda>grp. map sourceUri (resources grp)) ?gs"
    proof (rule nth_equalityI)
      show "length (map (\<lambda>g. map node_sourceUri (groupNodeChildren g)) (rootNodeChildren root))
          = length (map (\<lambda>grp. map sourceUri (resources grp)) ?gs)"
        using len by simp
    next
      fix i
      assume "i < length (map (\<lambda>g. map node_sourceUri (groupNodeChildren g))
                          (rootNodeChildren root))"
      then have i: "i < length (rootNodeChildren root)" by simp
      have "groupNodeChildren (rootNodeChildren root ! i)
              = map (\<lambda>r. fst (toFileChangeNode w r None)) (resources (?gs ! i))"
        using each [OF i] m by blast
      then have "map node_sourceUri (groupNodeChildren (rootNodeChildren root ! i))
          = map sourceUri (resources (?gs ! i))"
        by (simp add: toFileChangeNode_leaf(2) comp_def)
      then show "map (\<lambda>g. map node_sourceUri (groupNodeChildren g)) (rootNodeChildren root) ! i
          = map (\<lambda>grp. map sourceUri (resources grp)) ?gs ! i"
        using i len by simp
    qed
  next
    fix g assume m: "viewMode w = flat" and g: "g \<in> set (rootNodeChildren root)"
    from g obtain i where i: "i < length (rootNodeChildren root)" "g = rootNodeChildren root ! i"
      by (auto simp: in_set_conv_nth)
    have "groupNodeChildren g
              = map (\<lambda>r. fst (toFileChangeNode w r None)) (resources (?gs ! i))"
      using each [OF i(1)] m unfolding i(2) by blast
    then show "list_all FileChangeNode_is (groupNodeChildren g)"
      using toFileChangeNode_leaf(1)
      by (simp add: list_all_iff del: FileChangeNode_is.simps)
  qed
  show ?thesis using t f by (rule conjI)
qed

theorem siblings_ordered_in_tree_mode_witness:
  "createTree 4 sample_tree_widget sample_provider None
       = Some (Inr (\<lparr>rootNodeId = ''file-change-tree-root'', rootNodeRootUri = Some ''/r'',
                     rootNodeChildren =
                       [\<lparr>groupNodeId = ''g'', groupNodeGroupId = ''g'',
                         groupNodeChildren =
                           [FileChangeNode ''g:/r/a.txt'' ''/r/a.txt'' None False,
                            FileChangeNode ''g:/r/b.txt'' ''/r/b.txt'' None False],
                         groupNodeExpanded = True\<rparr>]\<rparr>, None))
   \<and> sorted_wrt (node_before sample_tree_widget)
         [FileChangeNode ''g:/r/a.txt'' ''/r/a.txt'' None False,
          FileChangeNode ''g:/r/b.txt'' ''/r/b.txt'' None False]"
proof -
  have lc: "localeCompare sample_tree_widget = sample_compare"
    by (simp add: sample_tree_widget_def sample_widget_def)
  have total: "\<forall>a b. localeCompare sample_tree_widget a b \<le> 0
                 \<or> localeCompare sample_tree_widget b a \<le> 0"
    unfolding lc using sample_compare_total by blast
  have trans: "\<forall>a b c. localeCompare sample_tree_widget a b \<le> 0
          \<longrightarrow> localeCompare sample_tree_widget b c \<le> 0
          \<longrightarrow> localeCompare sample_tree_widget a c \<le> 0"
    unfolding lc using sample_compare_trans by blast
  have mode: "viewMode sample_tree_widget = tree"
    by (simp add: sample_tree_widget_def sample_widget_def)
  have built: "createTree 4 sample_tree_widget sample_provider None
       = Some (Inr (\<lparr>rootNodeId = ''file-change-tree-root'', rootNodeRootUri = Some ''/r'',
                     rootNodeChildren =
                       [\<lparr>groupNodeId = ''g'', groupNodeGroupId = ''g'',
                         groupNodeChildren =
                           [FileChangeNode ''g:/r/a.txt'' ''/r/a.txt'' None False,
                            FileChangeNode ''g:/r/b.txt'' ''/r/b.txt'' None False],
                         groupNodeExpanded = True\<rparr>]\<rparr>, None))"
    by (simp add: createTree_def toGroupNode_def sample_provider_def sample_tree_widget_def
        sample_widget_def sample_resource_def resourcePaths_of_def sample_relative_def
        toFileChangeNode_def eval_nat_numeral at_index_def doCompareNodes_def Let_def
        build_loop.simps buildFileChangeTree.simps)
  have "sorted_wrt (node_before sample_tree_widget)
         [FileChangeNode ''g:/r/a.txt'' ''/r/a.txt'' None False,
          FileChangeNode ''g:/r/b.txt'' ''/r/b.txt'' None False]"
    using siblings_ordered_in_tree_mode [OF total trans built, THEN conjunct1, THEN mp, OF mode]
    by simp
  then show ?thesis using built by (intro conjI)
qed

text \<open>
  The claim as it is written also speaks of flat mode. There the two files of the sample
  provider stay in the provider's order, \<open>b.txt\<close> before \<open>a.txt\<close>, which is not the
  order of their URIs.
\<close>

theorem flat_mode_keeps_provider_order:
  "createTree 0 (sample_widget \<lparr>defaultExpansion = None, nestingThreshold = None\<rparr> flat
                  (\<lambda>i. None)) sample_provider None
     = Some (Inr (\<lparr>rootNodeId = ''file-change-tree-root'', rootNodeRootUri = Some ''/r'',
                   rootNodeChildren =
                     [\<lparr>groupNodeId = ''g'', groupNodeGroupId = ''g'',
                       groupNodeChildren =
                         [FileChangeNode ''g:/r/b.txt'' ''/r/b.txt'' None False,
                          FileChangeNode ''g:/r/a.txt'' ''/r/a.txt'' None False],
                       groupNodeExpanded = True\<rparr>]\<rparr>, None))
   \<and> \<not> node_before (sample_widget \<lparr>defaultExpansion = None, nestingThreshold = None\<rparr> flat
                        (\<lambda>i. None))
         (FileChangeNode ''g:/r/b.txt'' ''/r/b.txt'' None False)
         (FileChangeNode ''g:/r/a.txt'' ''/r/a.txt'' None False)"
  by (simp add: createTree_def toGroupNode_def sample_provider_def sample_widget_def
      sample_resource_def toFileChangeNode_def node_before_def)

subsection \<open>Flags carried over a rebuild\<close>








subsection \<open>Moving to the next and the previous file\<close>

lemma moveToNextFileNode_none:
  "getNextSelectableNode m = None \<Longrightarrow> moveToNextFileNode m = (None, m)"
  by (simp add: moveToNextFileNode.simps [of m])

lemma moveToNextFileNode_file:
  "getNextSelectableNode m = Some j \<Longrightarrow> FileChangeNode_is (selectableNodes m ! j) \<Longrightarrow>
   moveToNextFileNode m = (Some (selectableNodes m ! j), selectNode j m)"
  by (simp add: moveToNextFileNode.simps [of m] del: FileChangeNode_is.simps)

lemma moveToNextFileNode_folder:
  "getNextSelectableNode m = Some j \<Longrightarrow> \<not> FileChangeNode_is (selectableNodes m ! j) \<Longrightarrow>
   moveToNextFileNode m = moveToNextFileNode (selectNode j m)"
  by (simp add: moveToNextFileNode.simps [of m] del: FileChangeNode_is.simps)

lemma moveToPreviousFileNode_none:
  "getPrevSelectableNode m = None \<Longrightarrow> moveToPreviousFileNode m = (None, m)"
  by (simp add: moveToPreviousFileNode.simps [of m])

lemma moveToPreviousFileNode_file:
  "getPrevSelectableNode m = Some j \<Longrightarrow> FileChangeNode_is (selectableNodes m ! j) \<Longrightarrow>
   moveToPreviousFileNode m = (Some (selectableNodes m ! j), selectNode j m)"
  by (simp add: moveToPreviousFileNode.simps [of m] del: FileChangeNode_is.simps)

lemma moveToPreviousFileNode_folder:
  "getPrevSelectableNode m = Some j \<Longrightarrow> \<not> FileChangeNode_is (selectableNodes m ! j) \<Longrightarrow>
   moveToPreviousFileNode m = moveToPreviousFileNode (selectNode j m)"
  by (simp add: moveToPreviousFileNode.simps [of m] del: FileChangeNode_is.simps)

lemma moveToNextFileNode_returns_file:
  "moveToNextFileNode m = (Some n, m1) \<Longrightarrow>
   FileChangeNode_is n \<and> selectableNodes m1 = selectableNodes m
   \<and> (\<exists>j. selectedNode m1 = Some j \<and> j < length (selectableNodes m)
            \<and> selectableNodes m ! j = n)"
proof (induction m rule: moveToNextFileNode.induct)
  case (1 m)
  show ?case
  proof (cases "getNextSelectableNode m")
    case None
    then show ?thesis using "1.prems" by (simp add: moveToNextFileNode_none)
  next
    case (Some j)
    then have j: "j < length (selectableNodes m)"
      by (auto simp: getNextSelectableNode_def split: option.splits if_splits)
    show ?thesis
    proof (cases "FileChangeNode_is (selectableNodes m ! j)")
      case True
      then show ?thesis using "1.prems" Some j
        by (auto simp: moveToNextFileNode_file selectNode_def simp del: FileChangeNode_is.simps)
    next
      case False
      have "moveToNextFileNode (selectNode j m) = (Some n, m1)"
        using "1.prems" moveToNextFileNode_folder [OF Some False] by simp
      from "1.IH" [OF Some False this] show ?thesis by (simp add: selectNode_def)
    qed
  qed
qed

lemma moveToPreviousFileNode_returns_file:
  "moveToPreviousFileNode m = (Some n, m1) \<Longrightarrow>
   FileChangeNode_is n \<and> selectableNodes m1 = selectableNodes m
   \<and> (\<exists>j. selectedNode m1 = Some j \<and> j < length (selectableNodes m)
            \<and> selectableNodes m ! j = n)"
proof (induction m rule: moveToPreviousFileNode.induct)
  case (1 m)
  show ?case
  proof (cases "getPrevSelectableNode m")
    case None
    then show ?thesis using "1.prems" by (simp add: moveToPreviousFileNode_none)
  next
    case (Some j)
    then have j: "j < length (selectableNodes m)"
      by (auto simp: getPrevSelectableNode_def split: option.splits if_splits)
    show ?thesis
    proof (cases "FileChangeNode_is (selectableNodes m ! j)")
      case True
      then show ?thesis using "1.prems" Some j
        by (auto simp: moveToPreviousFileNode_file selectNode_def
            simp del: FileChangeNode_is.simps)
    next
      case False
      have "moveToPreviousFileNode (selectNode j m) = (Some n, m1)"
        using "1.prems" moveToPreviousFileNode_folder [OF Some False] by simp
      from "1.IH" [OF Some False this] show ?thesis by (simp add: selectNode_def)
    qed
  qed
qed

text \<open>The step forward finds the first file node after the selection.\<close>

lemma moveToNextFileNode_first_file:
  "selectedNode m = Some i \<Longrightarrow> i < j \<Longrightarrow> j < length (selectableNodes m) \<Longrightarrow>
   FileChangeNode_is (selectableNodes m ! j) \<Longrightarrow>
   (\<forall>k. i < k \<and> k < j \<longrightarrow> \<not> FileChangeNode_is (selectableNodes m ! k)) \<Longrightarrow>
   moveToNextFileNode m = (Some (selectableNodes m ! j), m\<lparr>selectedNode := Some j\<rparr>)"
proof (induction "j - i" arbitrary: i m)
  case 0
  then show ?case by simp
next
  case (Suc d)
  have nxt: "getNextSelectableNode m = Some (Suc i)"
    using Suc.prems by (simp add: getNextSelectableNode_def)
  show ?case
  proof (cases "Suc i = j")
    case True
    then show ?thesis
      using moveToNextFileNode_file [OF nxt] Suc.prems by (simp add: selectNode_def)
  next
    case False
    then have lt: "Suc i < j" using Suc.prems by simp
    then have nf: "\<not> FileChangeNode_is (selectableNodes m ! Suc i)" using Suc.prems by blast
    have d: "d = j - Suc i" using Suc.hyps by simp
    have "moveToNextFileNode (selectNode (Suc i) m)
        = (Some (selectableNodes (selectNode (Suc i) m) ! j),
           (selectNode (Suc i) m)\<lparr>selectedNode := Some j\<rparr>)"
      by (rule Suc.hyps(1) [OF d]) (use Suc.prems lt in \<open>auto simp: selectNode_def\<close>)
    then show ?thesis
      using moveToNextFileNode_folder [OF nxt nf] by (simp add: selectNode_def)
  qed
qed

lemma steps_reach_last_file:
  assumes last: "FileChangeNode_is (ns ! (length ns - 1))"
  shows "selectableNodes m = ns \<Longrightarrow> selectedNode m = Some i \<Longrightarrow> i < length ns \<Longrightarrow>
         \<exists>k. ((snd \<circ> moveToNextFileNode) ^^ k) m = m\<lparr>selectedNode := Some (length ns - 1)\<rparr>"
proof (induction "length ns - i" arbitrary: i m rule: less_induct)
  case less
  let ?L = "length ns - 1"
  show ?case
  proof (cases "i = ?L")
    case True
    have "((snd \<circ> moveToNextFileNode) ^^ 0) m = m\<lparr>selectedNode := Some ?L\<rparr>"
      using True less.prems by simp
    then show ?thesis by (rule exI)
  next
    case False
    then have iL: "i < ?L" using less.prems by simp
    define j where "j = (LEAST j. i < j \<and> FileChangeNode_is (ns ! j))"
    have ex: "i < ?L \<and> FileChangeNode_is (ns ! ?L)" using iL last by simp
    have j1: "i < j \<and> FileChangeNode_is (ns ! j)"
      unfolding j_def by (rule LeastI [of _ ?L]) (rule ex)
    have j2: "j \<le> ?L" unfolding j_def by (rule Least_le) (rule ex)
    have j3: "\<forall>k. i < k \<and> k < j \<longrightarrow> \<not> FileChangeNode_is (selectableNodes m ! k)"
    proof (intro allI impI)
      fix k assume k: "i < k \<and> k < j"
      show "\<not> FileChangeNode_is (selectableNodes m ! k)"
      proof
        assume "FileChangeNode_is (selectableNodes m ! k)"
        then have "i < k \<and> FileChangeNode_is (ns ! k)" using k less.prems(1) by simp
        then have "j \<le> k" unfolding j_def by (rule Least_le)
        then show False using k by simp
      qed
    qed
    have jlen: "j < length (selectableNodes m)" using j2 iL less.prems(1) by simp
    have jfile: "FileChangeNode_is (selectableNodes m ! j)" using j1 less.prems(1) by simp
    have ij: "i < j" using j1 by simp
    let ?m1 = "m\<lparr>selectedNode := Some j\<rparr>"
    have step: "moveToNextFileNode m = (Some (selectableNodes m ! j), ?m1)"
      by (rule moveToNextFileNode_first_file [OF less.prems(2) ij jlen jfile j3])
    have smaller: "length ns - j < length ns - i" using ij jlen less.prems(1) by simp
    have "\<exists>k. ((snd \<circ> moveToNextFileNode) ^^ k) ?m1 = ?m1\<lparr>selectedNode := Some ?L\<rparr>"
      by (rule less.hyps [OF smaller]) (use less.prems jlen in simp_all)
    then obtain k where k: "((snd \<circ> moveToNextFileNode) ^^ k) ?m1 = m\<lparr>selectedNode := Some ?L\<rparr>"
      by auto
    have "((snd \<circ> moveToNextFileNode) ^^ Suc k) m
            = ((snd \<circ> moveToNextFileNode) ^^ k) ((snd \<circ> moveToNextFileNode) m)"
      by (simp only: funpow_Suc_right comp_apply)
    also have "\<dots> = ((snd \<circ> moveToNextFileNode) ^^ k) ?m1" using step by simp
    finally have "((snd \<circ> moveToNextFileNode) ^^ Suc k) m = m\<lparr>selectedNode := Some ?L\<rparr>"
      using k by simp
    then show ?thesis by (rule exI)
  qed
qed

text \<open>
  What the two loops do. \<open>moveToNextFileNode\<close> and \<open>moveToPreviousFileNode\<close>
  return file nodes only, and the node they return is the one selected when they end. A
  folder node they meet on the way is selected, and the search goes on from it. When the
  model has no selectable node in the direction asked for, nothing changes. When the last
  visible node is a file node, steps forward from any selected node reach it, and the
  step after that changes nothing.
\<close>

lemma file_cursor:
  "(\<forall>n m1. moveToNextFileNode m = (Some n, m1) \<longrightarrow>
       FileChangeNode_is n \<and> selectableNodes m1 = selectableNodes m
       \<and> (\<exists>j. selectedNode m1 = Some j \<and> j < length (selectableNodes m)
                \<and> selectableNodes m ! j = n))
   \<and> (\<forall>n m1. moveToPreviousFileNode m = (Some n, m1) \<longrightarrow>
       FileChangeNode_is n \<and> selectableNodes m1 = selectableNodes m
       \<and> (\<exists>j. selectedNode m1 = Some j \<and> j < length (selectableNodes m)
                \<and> selectableNodes m ! j = n))
   \<and> (\<forall>j. getNextSelectableNode m = Some j \<and> \<not> FileChangeNode_is (selectableNodes m ! j)
          \<longrightarrow> moveToNextFileNode m = moveToNextFileNode (selectNode j m))
   \<and> (\<forall>j. getPrevSelectableNode m = Some j \<and> \<not> FileChangeNode_is (selectableNodes m ! j)
          \<longrightarrow> moveToPreviousFileNode m = moveToPreviousFileNode (selectNode j m))
   \<and> (getNextSelectableNode m = None \<longrightarrow> moveToNextFileNode m = (None, m))
   \<and> (getPrevSelectableNode m = None \<longrightarrow> moveToPreviousFileNode m = (None, m))
   \<and> ((\<exists>i. selectedNode m = Some i \<and> i < length (selectableNodes m))
        \<and> FileChangeNode_is (selectableNodes m ! (length (selectableNodes m) - 1))
        \<longrightarrow> (\<exists>k. ((snd \<circ> moveToNextFileNode) ^^ k) m
                    = m\<lparr>selectedNode := Some (length (selectableNodes m) - 1)\<rparr>
                 \<and> moveToNextFileNode (((snd \<circ> moveToNextFileNode) ^^ k) m)
                     = (None, ((snd \<circ> moveToNextFileNode) ^^ k) m)))"
proof -
  have a: "\<forall>n m1. moveToNextFileNode m = (Some n, m1) \<longrightarrow>
       FileChangeNode_is n \<and> selectableNodes m1 = selectableNodes m
       \<and> (\<exists>j. selectedNode m1 = Some j \<and> j < length (selectableNodes m)
                \<and> selectableNodes m ! j = n)"
    using moveToNextFileNode_returns_file by blast
  have b: "\<forall>n m1. moveToPreviousFileNode m = (Some n, m1) \<longrightarrow>
       FileChangeNode_is n \<and> selectableNodes m1 = selectableNodes m
       \<and> (\<exists>j. selectedNode m1 = Some j \<and> j < length (selectableNodes m)
                \<and> selectableNodes m ! j = n)"
    using moveToPreviousFileNode_returns_file by blast
  have c: "\<forall>j. getNextSelectableNode m = Some j \<and> \<not> FileChangeNode_is (selectableNodes m ! j)
          \<longrightarrow> moveToNextFileNode m = moveToNextFileNode (selectNode j m)"
    using moveToNextFileNode_folder by blast
  have d: "\<forall>j. getPrevSelectableNode m = Some j \<and> \<not> FileChangeNode_is (selectableNodes m ! j)
          \<longrightarrow> moveToPreviousFileNode m = moveToPreviousFileNode (selectNode j m)"
    using moveToPreviousFileNode_folder by blast
  have e: "getNextSelectableNode m = None \<longrightarrow> moveToNextFileNode m = (None, m)"
    using moveToNextFileNode_none by blast
  have f: "getPrevSelectableNode m = None \<longrightarrow> moveToPreviousFileNode m = (None, m)"
    using moveToPreviousFileNode_none by blast
  have g: "(\<exists>i. selectedNode m = Some i \<and> i < length (selectableNodes m))
        \<and> FileChangeNode_is (selectableNodes m ! (length (selectableNodes m) - 1))
        \<longrightarrow> (\<exists>k. ((snd \<circ> moveToNextFileNode) ^^ k) m
                    = m\<lparr>selectedNode := Some (length (selectableNodes m) - 1)\<rparr>
                 \<and> moveToNextFileNode (((snd \<circ> moveToNextFileNode) ^^ k) m)
                     = (None, ((snd \<circ> moveToNextFileNode) ^^ k) m))"
  proof
    assume h: "(\<exists>i. selectedNode m = Some i \<and> i < length (selectableNodes m))
        \<and> FileChangeNode_is (selectableNodes m ! (length (selectableNodes m) - 1))"
    then obtain i where i: "selectedNode m = Some i" "i < length (selectableNodes m)" by blast
    from steps_reach_last_file [of "selectableNodes m" m i] h i
    obtain k where k: "((snd \<circ> moveToNextFileNode) ^^ k) m
                    = m\<lparr>selectedNode := Some (length (selectableNodes m) - 1)\<rparr>"
      by blast
    have "getNextSelectableNode (m\<lparr>selectedNode := Some (length (selectableNodes m) - 1)\<rparr>)
            = None"
      using i by (simp add: getNextSelectableNode_def)
    then have "moveToNextFileNode (m\<lparr>selectedNode := Some (length (selectableNodes m) - 1)\<rparr>)
        = (None, m\<lparr>selectedNode := Some (length (selectableNodes m) - 1)\<rparr>)"
      by (rule moveToNextFileNode_none)
    then show "\<exists>k. ((snd \<circ> moveToNextFileNode) ^^ k) m
                    = m\<lparr>selectedNode := Some (length (selectableNodes m) - 1)\<rparr>
                 \<and> moveToNextFileNode (((snd \<circ> moveToNextFileNode) ^^ k) m)
                     = (None, ((snd \<circ> moveToNextFileNode) ^^ k) m)"
      using k by auto
  qed
  show ?thesis by (intro conjI a b c d e f g)
qed

lemma file_cursor_example:
  "moveToNextFileNode (sample_model True)
     = (Some (FileChangeNode ''g:/r/b/y.txt'' ''/r/b/y.txt'' None False),
        \<lparr>selectableNodes = visibleNodes (sample_forest True), selectedNode = Some 3\<rparr>)
   \<and> FileChangeNode_is (FileChangeNode ''g:/r/b/y.txt'' ''/r/b/y.txt'' None False)
   \<and> selectableNodes
         \<lparr>selectableNodes = visibleNodes (sample_forest True), selectedNode = Some 3\<rparr>
       = selectableNodes (sample_model True)"
proof -
  have step: "moveToNextFileNode (sample_model True)
     = (Some (FileChangeNode ''g:/r/b/y.txt'' ''/r/b/y.txt'' None False),
        \<lparr>selectableNodes = visibleNodes (sample_forest True), selectedNode = Some 3\<rparr>)"
    by (simp add: moveToNextFileNode.simps getNextSelectableNode_def selectNode_def
        sample_model_def sample_forest_def eval_nat_numeral)
  from file_cursor [of "sample_model True", THEN conjunct1, rule_format, OF step]
  have "FileChangeNode_is (FileChangeNode ''g:/r/b/y.txt'' ''/r/b/y.txt'' None False)
      \<and> selectableNodes
            \<lparr>selectableNodes = visibleNodes (sample_forest True), selectedNode = Some 3\<rparr>
          = selectableNodes (sample_model True)"
    by (elim conjE) (intro conjI; assumption)
  then show ?thesis using step by (intro conjI) (elim conjE, assumption)+
qed

text \<open>
  Claim C6. The claim asks that a step never selects a folder node and changes nothing
  when no file node follows in its direction; the comments of \<open>handleRight\<close> and
  \<open>handleLeft\<close> say the same of the keys: "no-op if no next file", "no-op if no previous
  file". The loops select every folder node they pass. With the folder \<open>b\<close> collapsed no
  file node follows \<open>x.txt\<close>: the step forward returns nothing, and the selection has
  moved from the file to the folder \<open>b\<close>. No file node stands before \<open>x.txt\<close>: the step
  back returns nothing and leaves the folder \<open>a\<close> selected.
\<close>

theorem step_ends_on_folder:
  "FileChangeNode_is (selectableNodes (sample_model False) ! 1)
   \<and> selectedNode (sample_model False) = Some 1
   \<and> moveToNextFileNode (sample_model False)
       = (None, \<lparr>selectableNodes = visibleNodes (sample_forest False), selectedNode = Some 2\<rparr>)
   \<and> FileChangeFolderNode_is (visibleNodes (sample_forest False) ! 2)
   \<and> moveToPreviousFileNode (sample_model False)
       = (None, \<lparr>selectableNodes = visibleNodes (sample_forest False), selectedNode = Some 0\<rparr>)
   \<and> FileChangeFolderNode_is (visibleNodes (sample_forest False) ! 0)"
  by (simp add: moveToNextFileNode.simps moveToPreviousFileNode.simps
      getNextSelectableNode_def getPrevSelectableNode_def selectNode_def
      sample_model_def sample_forest_def eval_nat_numeral)

subsection \<open>The builder returns\<close>

lemma well_grouped_iff:
  "well_grouped rs s e L \<longleftrightarrow>
     e \<le> length rs
     \<and> (\<forall>i. s \<le> i \<and> i < e \<longrightarrow> L < length (pathParts (rs ! i)))
     \<and> (\<forall>i j. s \<le> i \<and> i < j \<and> j < e \<longrightarrow>
           \<not> proper_prefix (segments_from rs L j) (segments_from rs L i))
     \<and> (\<forall>i m j k. s \<le> i \<and> i < m \<and> m < j \<and> j < e \<and> k \<le> length (segments_from rs L i)
           \<and> take k (segments_from rs L i) = take k (segments_from rs L j)
           \<longrightarrow> take k (segments_from rs L m) = take k (segments_from rs L i))"
proof -
  have a: "(\<forall>i \<in> set [s..<e]. L < length (pathParts (rs ! i)))
        \<longleftrightarrow> (\<forall>i. s \<le> i \<and> i < e \<longrightarrow> L < length (pathParts (rs ! i)))"
    by auto
  have b: "(\<forall>i \<in> set [s..<e]. \<forall>j \<in> set [Suc i..<e].
            \<not> proper_prefix (segments_from rs L j) (segments_from rs L i))
        \<longleftrightarrow> (\<forall>i j. s \<le> i \<and> i < j \<and> j < e \<longrightarrow>
           \<not> proper_prefix (segments_from rs L j) (segments_from rs L i))"
    by (auto simp: Suc_le_eq)
  have c: "(\<forall>i \<in> set [s..<e]. \<forall>m \<in> set [Suc i..<e]. \<forall>j \<in> set [Suc m..<e].
          \<forall>k \<in> set [0..<Suc (length (segments_from rs L i))].
            take k (segments_from rs L i) = take k (segments_from rs L j)
            \<longrightarrow> take k (segments_from rs L m) = take k (segments_from rs L i))
        \<longleftrightarrow> (\<forall>i m j k. s \<le> i \<and> i < m \<and> m < j \<and> j < e \<and> k \<le> length (segments_from rs L i)
           \<and> take k (segments_from rs L i) = take k (segments_from rs L j)
           \<longrightarrow> take k (segments_from rs L m) = take k (segments_from rs L i))"
    (is "?l \<longleftrightarrow> ?r")
  proof
    assume l: ?l
    show ?r
    proof (intro allI impI)
      fix i m j k
      assume h: "s \<le> i \<and> i < m \<and> m < j \<and> j < e \<and> k \<le> length (segments_from rs L i)
           \<and> take k (segments_from rs L i) = take k (segments_from rs L j)"
      then have "i \<in> set [s..<e]" "m \<in> set [Suc i..<e]" "j \<in> set [Suc m..<e]"
        "k \<in> set [0..<Suc (length (segments_from rs L i))]" by auto
      then show "take k (segments_from rs L m) = take k (segments_from rs L i)"
        using l h by blast
    qed
  next
    assume r: ?r
    show ?l
    proof (intro ballI impI)
      fix i m j k
      assume "i \<in> set [s..<e]" "m \<in> set [Suc i..<e]" "j \<in> set [Suc m..<e]"
        "k \<in> set [0..<Suc (length (segments_from rs L i))]"
        and eq: "take k (segments_from rs L i) = take k (segments_from rs L j)"
      then have "s \<le> i \<and> i < m \<and> m < j \<and> j < e \<and> k \<le> length (segments_from rs L i)"
        by auto
      then show "take k (segments_from rs L m) = take k (segments_from rs L i)"
        using r eq by blast
    qed
  qed
  show ?thesis unfolding well_grouped_def a b c by (rule refl)
qed

lemma well_grouped_run:
  assumes wg: "well_grouped rs start end level"
    and fs: "start \<le> fs" "fs < end"
    and nonleaf: "int level \<noteq> int (length (pathParts (rs ! fs))) - 1"
    and fe: "folderEnd_loop rs end level (rs ! fs) (fs + 1) = Inr fe"
    and t: "t = thisLevel_loop (pathParts (rs ! fs)) (pathParts (rs ! (fe - 1))) (level + 1)"
  shows "well_grouped rs fs fe t \<and> level < t"
proof -
  let ?sf = "segments_from rs level"
  let ?f = "pathParts (rs ! fs)"
  let ?l = "pathParts (rs ! (fe - 1))"
  define d where "d = t - level"
  note w = wg [unfolded well_grouped_iff]
  have elen: "end \<le> length rs" using w by simp
  have D: "\<And>i. start \<le> i \<Longrightarrow> i < end \<Longrightarrow> level < length (pathParts (rs ! i))"
    using w by blast
  have A: "\<And>i j. start \<le> i \<Longrightarrow> i < j \<Longrightarrow> j < end
              \<Longrightarrow> \<not> proper_prefix (?sf j) (?sf i)"
    using w by blast
  have B: "\<And>i m j k. start \<le> i \<Longrightarrow> i < m \<Longrightarrow> m < j \<Longrightarrow> j < end
              \<Longrightarrow> k \<le> length (?sf i) \<Longrightarrow> take k (?sf i) = take k (?sf j)
              \<Longrightarrow> take k (?sf m) = take k (?sf i)"
    using w by blast
  have b: "fs + 1 \<le> fe \<and> fe \<le> end
     \<and> (\<forall>i. fs + 1 \<le> i \<and> i < fe \<longrightarrow>
            i < length rs
            \<and> at_index (pathParts (rs ! i)) level = at_index (pathParts (rs ! fs)) level)"
    using folderEnd_loop_bounds [OF fe] fs by simp
  have fe1: "fs < fe" "fe \<le> end" using b by simp_all
  have T: "level + 1 \<le> t
     \<and> (\<forall>k. level + 1 \<le> k \<and> k < t \<longrightarrow>
            int k < int (length ?f) - 1 \<and> int k < int (length ?l) - 1 \<and> ?f ! k = ?l ! k)"
    unfolding t using thisLevel_loop_spec [of "level + 1" ?f ?l] by blast
  have t1: "level + 1 \<le> t" using T by simp
  have lt: "level < t" using t1 by simp
  have dpos: "0 < d" "t = level + d" using lt by (simp_all add: d_def)
  have sf_len: "\<And>i. length (?sf i) = length (pathParts (rs ! i)) - level"
    by (simp add: segments_from_def)
  have sf_nth: "\<And>i k. level + k < length (pathParts (rs ! i))
                  \<Longrightarrow> ?sf i ! k = pathParts (rs ! i) ! (level + k)"
    by (simp add: segments_from_def)
  have lenf: "level + 1 < length ?f" using D [OF fs] nonleaf by simp
  have tf: "t < length ?f"
  proof (cases "t = level + 1")
    case True
    then show ?thesis using lenf by simp
  next
    case False
    then have "level + 1 \<le> t - 1 \<and> t - 1 < t" using t1 by arith
    then have "int (t - 1) < int (length ?f) - 1" using T by blast
    then show ?thesis by simp
  qed
  have last_in: "start \<le> fe - 1" "fe - 1 < end" "fs \<le> fe - 1" "fe - 1 < fe"
    using fs fe1 by simp_all
  have run_eq: "\<And>m. fs \<le> m \<Longrightarrow> m < fe \<Longrightarrow> pathParts (rs ! m) ! level = ?f ! level"
  proof -
    fix m assume m: "fs \<le> m" "m < fe"
    show "pathParts (rs ! m) ! level = ?f ! level"
    proof (cases "m = fs")
      case True
      then show ?thesis by simp
    next
      case False
      then have "fs + 1 \<le> m \<and> m < fe" using m by simp
      then have "at_index (pathParts (rs ! m)) level = at_index ?f level" using b by blast
      moreover have "level < length (pathParts (rs ! m))" using D [of m] m fs fe1 by simp
      moreover have "level < length ?f" using D [OF fs] .
      ultimately show ?thesis by (simp add: at_index_def)
    qed
  qed
  have tl: "t \<le> length ?l"
  proof (cases "t = level + 1")
    case True
    then show ?thesis using D [OF last_in(1,2)] by simp
  next
    case False
    then have "level + 1 \<le> t - 1 \<and> t - 1 < t" using t1 by arith
    then have "int (t - 1) < int (length ?l) - 1" using T by blast
    then show ?thesis by simp
  qed
  have agree: "take d (?sf (fe - 1)) = take d (?sf fs)"
  proof (rule nth_equalityI)
    show "length (take d (?sf (fe - 1))) = length (take d (?sf fs))"
      using tl tf dpos by (simp add: sf_len)
  next
    fix k assume "k < length (take d (?sf (fe - 1)))"
    then have k: "k < d" by simp
    have kl: "level + k < length ?l" using k tl dpos by simp
    have kf: "level + k < length ?f" using k tf dpos by simp
    have "?l ! (level + k) = ?f ! (level + k)"
    proof (cases k)
      case 0
      then show ?thesis using run_eq [OF last_in(3,4)] by simp
    next
      case (Suc k')
      then have "level + 1 \<le> level + k \<and> level + k < t" using k dpos by simp
      then show ?thesis using T by metis
    qed
    then show "take d (?sf (fe - 1)) ! k = take d (?sf fs) ! k"
      using k sf_nth [OF kl] sf_nth [OF kf] by simp
  qed
  have dlen: "d < length (?sf fs)" using tf dpos by (simp add: sf_len)
  have between: "\<And>m. fs \<le> m \<Longrightarrow> m < fe \<Longrightarrow> take d (?sf m) = take d (?sf fs)"
  proof -
    fix m assume m: "fs \<le> m" "m < fe"
    consider "m = fs" | "m = fe - 1" | "fs < m" "m < fe - 1" using m by linarith
    then show "take d (?sf m) = take d (?sf fs)"
    proof cases
      case 1 then show ?thesis by simp
    next
      case 2 then show ?thesis using agree by simp
    next
      case 3
      show ?thesis
        by (rule B [OF fs(1) 3(1) 3(2) last_in(2)]) (use dlen agree in simp_all)
    qed
  qed
  have longer: "\<And>m. fs \<le> m \<Longrightarrow> m < fe \<Longrightarrow> d < length (?sf m)"
  proof -
    fix m assume m: "fs \<le> m" "m < fe"
    have "length (take d (?sf m)) = length (take d (?sf fs))" using between [OF m] by simp
    then have ge: "d \<le> length (?sf m)" using dlen by simp
    show "d < length (?sf m)"
    proof (rule ccontr)
      assume "\<not> d < length (?sf m)"
      then have eq: "length (?sf m) = d" using ge by simp
      then have "?sf m = take d (?sf fs)" using between [OF m] by simp
      then have pp: "proper_prefix (?sf m) (?sf fs)"
        using eq dlen by (simp add: proper_prefix_def)
      show False
      proof (cases "m = fs")
        case True
        then show ?thesis using eq dlen by simp
      next
        case False
        then have "fs < m" using m by simp
        then show ?thesis using A [OF fs(1) _ _] m fe1 pp by simp
      qed
    qed
  qed
  have sf': "\<And>i. segments_from rs t i = drop d (?sf i)"
    using dpos by (simp add: segments_from_def add.commute)
  have D': "\<forall>i. fs \<le> i \<and> i < fe \<longrightarrow> t < length (pathParts (rs ! i))"
  proof (intro allI impI)
    fix i assume i: "fs \<le> i \<and> i < fe"
    then have "d < length (?sf i)" using longer by simp
    then show "t < length (pathParts (rs ! i))" using dpos by (simp add: sf_len)
  qed
  have A': "\<forall>i j. fs \<le> i \<and> i < j \<and> j < fe \<longrightarrow>
           \<not> proper_prefix (segments_from rs t j) (segments_from rs t i)"
  proof (intro allI impI notI)
    fix i j
    assume ij: "fs \<le> i \<and> i < j \<and> j < fe"
      and pp: "proper_prefix (segments_from rs t j) (segments_from rs t i)"
    have li: "d < length (?sf i)" and lj: "d < length (?sf j)" using longer ij by simp_all
    have "take d (?sf i) = take d (?sf fs)" by (rule between) (use ij in simp_all)
    moreover have "take d (?sf j) = take d (?sf fs)" by (rule between) (use ij in simp_all)
    ultimately have same: "take d (?sf i) = take d (?sf j)" by simp
    let ?q = "length (drop d (?sf j))"
    from pp have p1: "?q < length (drop d (?sf i))"
      and p2: "take ?q (drop d (?sf i)) = drop d (?sf j)"
      unfolding sf' proper_prefix_def by simp_all
    have "take (d + ?q) (?sf i) = take d (?sf i) @ take ?q (drop d (?sf i))"
      by (rule take_add)
    also have "\<dots> = take d (?sf j) @ drop d (?sf j)" using same p2 by simp
    also have "\<dots> = ?sf j" by simp
    finally have "take (d + ?q) (?sf i) = ?sf j" .
    moreover have "d + ?q = length (?sf j)" using lj by simp
    moreover have "length (?sf j) < length (?sf i)" using p1 li lj by simp
    ultimately have "proper_prefix (?sf j) (?sf i)" by (simp add: proper_prefix_def)
    then show False using A [of i j] ij fs fe1 by simp
  qed
  have B': "\<forall>i m j k. fs \<le> i \<and> i < m \<and> m < j \<and> j < fe
           \<and> k \<le> length (segments_from rs t i)
           \<and> take k (segments_from rs t i) = take k (segments_from rs t j)
           \<longrightarrow> take k (segments_from rs t m) = take k (segments_from rs t i)"
  proof (intro allI impI)
    fix i m j k
    assume h: "fs \<le> i \<and> i < m \<and> m < j \<and> j < fe
           \<and> k \<le> length (segments_from rs t i)
           \<and> take k (segments_from rs t i) = take k (segments_from rs t j)"
    have li: "d < length (?sf i)" using longer h by simp
    have "take d (?sf i) = take d (?sf fs)" by (rule between) (use h in simp_all)
    moreover have "take d (?sf j) = take d (?sf fs)" by (rule between) (use h in simp_all)
    ultimately have same_j: "take d (?sf i) = take d (?sf j)" by simp
    have "k \<le> length (?sf i) - d" using h unfolding sf' by simp
    then have kk: "d + k \<le> length (?sf i)" using li by arith
    have "take (d + k) (?sf i) = take d (?sf i) @ take k (drop d (?sf i))" by (rule take_add)
    also have "\<dots> = take d (?sf j) @ take k (drop d (?sf j))"
      using same_j h unfolding sf' by simp
    also have "\<dots> = take (d + k) (?sf j)" by (rule take_add [symmetric])
    finally have eq: "take (d + k) (?sf i) = take (d + k) (?sf j)" .
    have "take (d + k) (?sf m) = take (d + k) (?sf i)"
      by (rule B [OF _ _ _ _ kk eq]) (use h fs fe1 in simp_all)
    then have "drop d (take (d + k) (?sf m)) = drop d (take (d + k) (?sf i))" by simp
    then show "take k (segments_from rs t m) = take k (segments_from rs t i)"
      unfolding sf' by (simp add: drop_take)
  qed
  have "fe \<le> length rs" using fe1 elen by simp
  then have "well_grouped rs fs fe t"
    unfolding well_grouped_iff using D' A' B' by blast
  then show ?thesis using lt by simp
qed


lemma build_loop_returns:
  assumes wg: "well_grouped rs start end level"
    and deeper: "\<And>s e t parent sel. level < t \<Longrightarrow> well_grouped rs s e t \<Longrightarrow>
           \<exists>n out sel1. buildFileChangeTree n w rs s e t parent sel = Some (Inr (out, sel1))"
  shows "start \<le> fs \<Longrightarrow> fs \<le> end \<Longrightarrow>
         \<exists>n out sel1. build_loop n w rs fs end level parent acc sel = Some (Inr (out, sel1))"
proof (induction "end - fs" arbitrary: fs acc sel rule: less_induct)
  case less
  note w = wg [unfolded well_grouped_iff]
  have elen: "end \<le> length rs" using w by simp
  show ?case
  proof (cases "fs < end")
    case False
    have "build_loop (Suc 0) w rs fs end level parent acc sel = Some (Inr (acc, sel))"
      using False by (rule build_loop_done)
    then show ?thesis by blast
  next
    case True
    have first: "at_index rs fs = Some (rs ! fs)" using True elen by (simp add: at_index_def)
    show ?thesis
    proof (cases "int level = int (length (pathParts (rs ! fs))) - 1")
      case leaf: True
      have "Suc fs \<le> end" "start \<le> Suc fs" "end - Suc fs < end - fs"
        using True less.prems by simp_all
      from less.hyps [OF this(3) this(2) this(1)]
      obtain n out sel1
        where r: "build_loop n w rs (Suc fs) end level parent
                    (acc @ [fst (toFileChangeNode w (resource (rs ! fs)) sel)])
                    (snd (toFileChangeNode w (resource (rs ! fs)) sel)) = Some (Inr (out, sel1))"
        by blast
      have "build_loop (Suc n) w rs fs end level parent acc sel = Some (Inr (out, sel1))"
        using r by (simp only: build_loop_leaf [OF True first leaf])
      then show ?thesis by blast
    next
      case nonleaf: False
      from folderEnd_loop_total [OF elen, of level "rs ! fs" "fs + 1"]
      obtain fe where fe: "folderEnd_loop rs end level (rs ! fs) (fs + 1) = Inr fe" by blast
      have b: "fs + 1 \<le> fe \<and> fe \<le> end"
        using folderEnd_loop_bounds [OF fe] True by simp
      have next_ok: "fe \<le> end" "start \<le> fe" "end - fe < end - fs"
        using b True less.prems by arith+
      have valid: "\<forall>j. fs \<le> j \<and> j < fe \<longrightarrow> j < length rs" using b elen by simp
      show ?thesis
      proof (cases "int fe - int fs < nestingThreshold_or_1 w")
        case small: True
        from inline_loop_spec [OF valid, of w acc sel]
        obtain sel2 where i: "inline_loop w rs fs fe acc sel
            = Inr (acc @ map (\<lambda>j. fst (toFileChangeNode w (resource (rs ! j)) None)) [fs..<fe],
                   sel2)"
          by blast
        from less.hyps [OF next_ok(3) next_ok(2) next_ok(1)]
        obtain n out sel1
          where r: "build_loop n w rs fe end level parent
              (acc @ map (\<lambda>j. fst (toFileChangeNode w (resource (rs ! j)) None)) [fs..<fe])
              sel2 = Some (Inr (out, sel1))"
          by blast
        have "build_loop (Suc n) w rs fs end level parent acc sel = Some (Inr (out, sel1))"
          using r i by (simp add: build_loop_inline [OF True first nonleaf fe small])
        then show ?thesis by blast
      next
        case big: False
        have "fe - 1 < length rs" using b elen by arith
        then have last: "at_index rs (fe - 1) = Some (rs ! (fe - 1))" by (simp add: at_index_def)
        let ?t = "thisLevel_loop (pathParts (rs ! fs)) (pathParts (rs ! (fe - 1))) (level + 1)"
        let ?p = "join_slash (slice (pathParts (rs ! fs)) level ?t)"
        let ?u = "uri_resolve w (parentPath parent) ?p"
        have run: "well_grouped rs fs fe ?t \<and> level < ?t"
          by (rule well_grouped_run [OF wg less.prems(1) True nonleaf fe refl])
        from deeper [of ?t fs fe "FolderParent (parent_groupId parent) ?u" sel] run
        obtain n0 children sel2
          where c: "buildFileChangeTree n0 w rs fs fe ?t
                      (FolderParent (parent_groupId parent) ?u) sel = Some (Inr (children, sel2))"
          by blast
        obtain folderNode
          where f: "toFileChangeFolderNode (Suc n0) w rs fs fe ?t ?p parent sel
                      = Some (Inr (folderNode, sel2))"
          using c by (simp add: toFileChangeFolderNode.simps(2) Let_def)
        from less.hyps [OF next_ok(3) next_ok(2) next_ok(1)]
        obtain n1 out sel1
          where r: "build_loop n1 w rs fe end level parent (acc @ [folderNode]) sel2
                      = Some (Inr (out, sel1))"
          by blast
        let ?n = "max (Suc n0) n1"
        have f': "toFileChangeFolderNode ?n w rs fs fe ?t ?p parent sel
                      = Some (Inr (folderNode, sel2))"
          by (rule toFileChangeFolderNode_mono [OF f]) simp
        have r': "build_loop ?n w rs fe end level parent (acc @ [folderNode]) sel2
                      = Some (Inr (out, sel1))"
          by (rule build_loop_mono [OF r]) simp
        have "build_loop (Suc ?n) w rs fs end level parent acc sel = Some (Inr (out, sel1))"
          using f' r' by (simp add: build_loop_folder [OF True first nonleaf fe big last])
        then show ?thesis by blast
      qed
    qed
  qed
qed

lemma buildFileChangeTree_returns:
  "well_grouped rs start end level \<Longrightarrow>
   \<exists>n out sel1. buildFileChangeTree n w rs start end level parent sel = Some (Inr (out, sel1))"
proof (induction "Max (insert 0 ((\<lambda>r. length (pathParts r)) ` set rs)) - level"
    arbitrary: level start "end" parent sel rule: less_induct)
  case less
  let ?M = "Max (insert 0 ((\<lambda>r. length (pathParts r)) ` set rs))"
  note w = less.prems [unfolded well_grouped_iff]
  show ?case
  proof (cases "start < end")
    case False
    have "build_loop (Suc 0) w rs start end level parent [] sel = Some (Inr ([], sel))"
      using False by (rule build_loop_done)
    then have "buildFileChangeTree (Suc (Suc 0)) w rs start end level parent sel
        = Some (Inr (array_sort (doCompareNodes w) [], sel))"
      by (simp add: buildFileChangeTree.simps(2))
    then show ?thesis by blast
  next
    case True
    then have sl: "start < length rs" and ll: "level < length (pathParts (rs ! start))"
      using w by auto
    have "length (pathParts (rs ! start)) \<in> insert 0 ((\<lambda>r. length (pathParts r)) ` set rs)"
      using sl by simp
    then have "length (pathParts (rs ! start)) \<le> ?M"
      by (intro Max_ge) simp_all
    then have lM: "level < ?M" using ll by (rule less_le_trans [rotated])
    have deeper: "\<And>s e t parent sel. level < t \<Longrightarrow> well_grouped rs s e t \<Longrightarrow>
           \<exists>n out sel1. buildFileChangeTree n w rs s e t parent sel = Some (Inr (out, sel1))"
    proof -
      fix s e t parent sel
      assume t: "level < t" and g: "well_grouped rs s e t"
      have "?M - t < ?M - level" using t lM by simp
      then show "\<exists>n out sel1. buildFileChangeTree n w rs s e t parent sel
                    = Some (Inr (out, sel1))"
        using g by (rule less.hyps)
    qed
    from build_loop_returns [OF less.prems deeper, of start parent "[]" sel] True
    obtain n out sel1
      where r: "build_loop n w rs start end level parent [] sel = Some (Inr (out, sel1))"
      by auto
    have "buildFileChangeTree (Suc n) w rs start end level parent sel
        = Some (Inr (array_sort (doCompareNodes w) out, sel1))"
      using r by (simp add: buildFileChangeTree.simps(2))
    then show ?thesis by blast
  qed
qed

text \<open>
  A resource whose path has no segment at \<open>level\<close> or beyond is never a file of its
  level: alone in its range it becomes a folder one level down, again and again.
\<close>

lemma short_path_never_returns:
  assumes thr: "nestingThreshold_or_1 w \<le> 1"
    and i: "i < length rs"
  shows "\<And>level parent acc sel. length (pathParts (rs ! i)) \<le> level \<Longrightarrow>
           build_loop n w rs i (Suc i) level parent acc sel = None"
    and "\<And>level parent sel. length (pathParts (rs ! i)) \<le> level \<Longrightarrow>
           buildFileChangeTree n w rs i (Suc i) level parent sel = None"
    and "\<And>level path parent sel. length (pathParts (rs ! i)) \<le> level \<Longrightarrow>
           toFileChangeFolderNode n w rs i (Suc i) level path parent sel = None"
proof (induction n)
  case 0
  { case 1 show ?case by simp }
  { case 2 show ?case by simp }
  { case 3 show ?case by simp }
next
  case (Suc n)
  {
    case (1 level parent acc sel)
    let ?f = "pathParts (rs ! i)"
    have lt: "i < Suc i" by simp
    have first: "at_index rs i = Some (rs ! i)" using i by (simp add: at_index_def)
    have nonleaf: "int level \<noteq> int (length ?f) - 1" using 1 by simp
    have fe: "folderEnd_loop rs (Suc i) level (rs ! i) (i + 1) = Inr (Suc i)"
      by (simp add: folderEnd_loop.simps [of rs "Suc i" level "rs ! i" "Suc i"])
    have big: "\<not> int (Suc i) - int i < nestingThreshold_or_1 w" using thr by simp
    have last: "at_index rs (Suc i - 1) = Some (rs ! i)" using i by (simp add: at_index_def)
    have t: "thisLevel_loop ?f ?f (level + 1) = level + 1"
      using 1 by (subst thisLevel_loop.simps) simp
    have "toFileChangeFolderNode n w rs i (Suc i) (level + 1)
            (join_slash (slice ?f level (level + 1))) parent sel = None"
      by (rule Suc.IH(3)) (use 1 in simp)
    then show ?case
      using build_loop_folder [OF lt first nonleaf fe big last, of n parent acc sel] t by simp
  next
    case (2 level parent sel)
    have "build_loop n w rs i (Suc i) level parent [] sel = None"
      by (rule Suc.IH(1) [OF 2])
    then show ?case by (simp add: buildFileChangeTree.simps(2))
  next
    case (3 level path parent sel)
    have "buildFileChangeTree n w rs i (Suc i) level
            (FolderParent (parent_groupId parent) (uri_resolve w (parentPath parent) path)) sel
          = None"
      by (rule Suc.IH(2) [OF 3])
    then show ?case by (simp add: toFileChangeFolderNode.simps(2) Let_def)
  }
qed

lemma file_after_its_folder_never_returns:
  "buildFileChangeTree n sample_tree_widget
     [sample_path [''a'', ''x.txt''], sample_path [''a'']] 0 2 0 parent sel = None"
proof -
  let ?w = sample_tree_widget
  let ?rs = "[sample_path [''a'', ''x.txt''], sample_path [''a'']]"
  have thr: "nestingThreshold_or_1 ?w \<le> 1"
    by (simp add: nestingThreshold_or_1_def sample_tree_widget_def sample_widget_def)
  have thr1: "nestingThreshold_or_1 ?w = 1"
    by (simp add: nestingThreshold_or_1_def sample_tree_widget_def sample_widget_def)
  have deep: "\<And>n parent acc sel. build_loop n ?w ?rs 1 2 1 parent acc sel = None"
  proof -
    fix n parent acc sel
    have "build_loop n ?w ?rs 1 (Suc 1) 1 parent acc sel = None"
      by (rule short_path_never_returns(1) [OF thr]) (simp_all add: sample_path_def)
    then show "build_loop n ?w ?rs 1 2 1 parent acc sel = None" by (simp add: numeral_2_eq_2)
  qed
  have l1: "\<And>n parent acc sel. build_loop n ?w ?rs 0 2 1 parent acc sel = None"
  proof -
    fix n parent acc sel
    show "build_loop n ?w ?rs 0 2 1 parent acc sel = None"
    proof (cases n)
      case 0
      then show ?thesis by simp
    next
      case (Suc k)
      have "build_loop (Suc k) ?w ?rs 0 2 1 parent acc sel
          = build_loop k ?w ?rs (Suc 0) 2 1 parent
              (acc @ [fst (toFileChangeNode ?w (resource (sample_path [''a'', ''x.txt''])) sel)])
              (snd (toFileChangeNode ?w (resource (sample_path [''a'', ''x.txt''])) sel))"
        by (rule build_loop_leaf) (simp_all add: at_index_def sample_path_def)
      then show ?thesis using deep Suc by simp
    qed
  qed
  have b1: "\<And>n parent sel. buildFileChangeTree n ?w ?rs 0 2 1 parent sel = None"
  proof -
    fix n parent sel
    show "buildFileChangeTree n ?w ?rs 0 2 1 parent sel = None"
      using l1 by (cases n) (simp_all add: buildFileChangeTree.simps(2))
  qed
  have f1: "\<And>n path parent sel. toFileChangeFolderNode n ?w ?rs 0 2 1 path parent sel = None"
  proof -
    fix n path parent sel
    show "toFileChangeFolderNode n ?w ?rs 0 2 1 path parent sel = None"
      using b1 by (cases n) (simp_all add: toFileChangeFolderNode.simps(2) Let_def)
  qed
  have l0: "\<And>n parent acc sel. build_loop n ?w ?rs 0 2 0 parent acc sel = None"
  proof -
    fix n parent acc sel
    show "build_loop n ?w ?rs 0 2 0 parent acc sel = None"
    proof (cases n)
      case 0
      then show ?thesis by simp
    next
      case (Suc k)
      have lt: "(0::nat) < 2" by simp
      have first: "at_index ?rs 0 = Some (sample_path [''a'', ''x.txt''])"
        by (simp add: at_index_def)
      have nonleaf: "int 0 \<noteq> int (length (pathParts (sample_path [''a'', ''x.txt'']))) - 1"
        by (simp add: sample_path_def)
      have fe: "folderEnd_loop ?rs 2 0 (sample_path [''a'', ''x.txt'']) (0 + 1) = Inr 2"
        by (simp add: folderEnd_loop.simps at_index_def sample_path_def eval_nat_numeral)
      have big: "\<not> int 2 - int 0 < nestingThreshold_or_1 ?w" using thr1 by simp
      have last: "at_index ?rs (2 - 1) = Some (sample_path [''a''])"
        by (simp add: at_index_def)
      have t: "thisLevel_loop (pathParts (sample_path [''a'', ''x.txt'']))
                 (pathParts (sample_path [''a''])) (0 + 1) = 1"
        by (simp add: thisLevel_loop.simps sample_path_def)
      show ?thesis
        using build_loop_folder [OF lt first nonleaf fe big last, of k parent acc sel] t f1 Suc
        by simp
    qed
  qed
  show ?thesis using l0 by (cases n) (simp_all add: buildFileChangeTree.simps(2))
qed

text \<open>
  A list that is sorted by its paths, segment by segment, is well grouped as soon as
  every path has a segment.
\<close>

lemma between_take:
  fixes xs ys zs :: "'a::linorder list"
  shows "xs \<le> ys \<Longrightarrow> ys \<le> zs \<Longrightarrow> take k xs = take k zs \<Longrightarrow> k \<le> length xs
         \<Longrightarrow> take k ys = take k xs"
proof (induction k arbitrary: xs ys zs)
  case 0
  then show ?case by simp
next
  case (Suc k)
  from Suc.prems(4) obtain x xs' where xs: "xs = x # xs'" by (cases xs) simp_all
  from Suc.prems(3) xs obtain zs' where zs: "zs = x # zs'" "take k xs' = take k zs'"
    by (cases zs) simp_all
  from Suc.prems(1) xs obtain y ys' where ys: "ys = y # ys'" by (cases ys) simp_all
  have "x < y \<or> x = y \<and> xs' \<le> ys'"
    using Suc.prems(1) unfolding xs ys by (simp add: Cons_le_Cons)
  moreover have "y < x \<or> y = x \<and> ys' \<le> zs'"
    using Suc.prems(2) unfolding zs ys by (simp add: Cons_le_Cons)
  ultimately have e: "x = y" "xs' \<le> ys'" "ys' \<le> zs'" by auto
  have "take k ys' = take k xs'"
    by (rule Suc.IH [OF e(2) e(3) zs(2)]) (use Suc.prems(4) xs in simp)
  then show ?case using xs ys e by simp
qed

lemma le_not_proper_prefix:
  fixes xs ys :: "'a::linorder list"
  shows "xs \<le> ys \<Longrightarrow> \<not> proper_prefix ys xs"
proof (induction ys arbitrary: xs)
  case Nil
  then show ?case by (simp add: proper_prefix_def)
next
  case (Cons y ys)
  show ?case
  proof
    assume p: "proper_prefix (y # ys) xs"
    then obtain x xs' where xs: "xs = x # xs'" by (cases xs) (simp_all add: proper_prefix_def)
    from p xs have xy: "x = y" and pp: "proper_prefix ys xs'"
      by (simp_all add: proper_prefix_def)
    have "xs' \<le> ys" using Cons.prems unfolding xs xy by (simp add: Cons_le_Cons)
    then show False using Cons.IH pp by blast
  qed
qed

lemma sorted_well_grouped:
  assumes s: "sorted (map pathParts rs)"
    and ne: "\<forall>p \<in> set rs. pathParts p \<noteq> []"
  shows "well_grouped rs 0 (length rs) 0"
proof -
  have le: "pathParts (rs ! i) \<le> pathParts (rs ! j)" if "i \<le> j" "j < length rs" for i j
  proof -
    have "map pathParts rs ! i \<le> map pathParts rs ! j"
      by (rule sorted_nth_mono [OF s]) (use that in simp_all)
    then show ?thesis using that by simp
  qed
  have sf: "\<And>i. segments_from rs 0 i = pathParts (rs ! i)" by (simp add: segments_from_def)
  show ?thesis
    unfolding well_grouped_iff sf
  proof (intro conjI allI impI)
    show "length rs \<le> length rs" by simp
  next
    fix i assume "0 \<le> i \<and> i < length rs"
    then have "rs ! i \<in> set rs" by simp
    then show "0 < length (pathParts (rs ! i))" using ne by simp
  next
    fix i j assume "0 \<le> i \<and> i < j \<and> j < length rs"
    then have "pathParts (rs ! i) \<le> pathParts (rs ! j)" using le [of i j] by simp
    then show "\<not> proper_prefix (pathParts (rs ! j)) (pathParts (rs ! i))"
      by (rule le_not_proper_prefix)
  next
    fix i m j k
    assume h: "0 \<le> i \<and> i < m \<and> m < j \<and> j < length rs \<and> k \<le> length (pathParts (rs ! i))
        \<and> take k (pathParts (rs ! i)) = take k (pathParts (rs ! j))"
    have a: "pathParts (rs ! i) \<le> pathParts (rs ! m)" using le [of i m] h by simp
    have b: "pathParts (rs ! m) \<le> pathParts (rs ! j)" using le [of m j] h by simp
    show "take k (pathParts (rs ! m)) = take k (pathParts (rs ! i))"
      by (rule between_take [OF a b]) (use h in simp_all)
  qed
qed

text \<open>
  Claim C9, as the code has it. \<open>buildFileChangeTree\<close> returns, without throwing, on
  every range of a list that is well grouped at the level it is called with: each resource
  of the range has a segment at that level, no resource's path is a proper prefix of the
  path of a resource before it, and resources that share leading segments stand together.
  From some amount of fuel on, the result is the same for every amount. So it returns on
  the whole of a list sorted by path in which every path has a segment. A path without
  segments is outside this: with the default threshold the recursion on it never ends.
\<close>

theorem builder_returns:
  "(well_grouped rs start end level \<longrightarrow>
      (\<exists>n out sel1. \<forall>m \<ge> n.
          buildFileChangeTree m w rs start end level parent sel = Some (Inr (out, sel1))))
   \<and> (sorted (map pathParts rs) \<and> (\<forall>p \<in> set rs. pathParts p \<noteq> []) \<longrightarrow>
      (\<exists>n out sel1. \<forall>m \<ge> n.
          buildFileChangeTree m w rs 0 (length rs) 0 parent sel = Some (Inr (out, sel1))))
   \<and> (nestingThreshold_or_1 w \<le> 1 \<longrightarrow>
      (\<forall>n. buildFileChangeTree n w [\<lparr>resource = r, pathParts = []\<rparr>] 0 1 0 parent sel
             = None))"
proof -
  have ret: "\<exists>n out sel1. \<forall>m \<ge> n.
          buildFileChangeTree m w rs s e l parent sel = Some (Inr (out, sel1))"
    if g: "well_grouped rs s e l" for s e l
  proof -
    from buildFileChangeTree_returns [OF g, of w parent sel]
    obtain n out sel1
      where r: "buildFileChangeTree n w rs s e l parent sel = Some (Inr (out, sel1))"
      by blast
    have "\<forall>m \<ge> n. buildFileChangeTree m w rs s e l parent sel = Some (Inr (out, sel1))"
      using buildFileChangeTree_mono [OF r] by blast
    then show ?thesis by blast
  qed
  show ?thesis
  proof (intro conjI impI allI)
    assume "well_grouped rs start end level"
    then show "\<exists>n out sel1. \<forall>m \<ge> n.
          buildFileChangeTree m w rs start end level parent sel = Some (Inr (out, sel1))"
      by (rule ret)
  next
    assume "sorted (map pathParts rs) \<and> (\<forall>p \<in> set rs. pathParts p \<noteq> [])"
    then have "well_grouped rs 0 (length rs) 0" by (intro sorted_well_grouped) simp_all
    then show "\<exists>n out sel1. \<forall>m \<ge> n.
          buildFileChangeTree m w rs 0 (length rs) 0 parent sel = Some (Inr (out, sel1))"
      by (rule ret)
  next
    fix n
    assume thr: "nestingThreshold_or_1 w \<le> 1"
    have "buildFileChangeTree n w [\<lparr>resource = r, pathParts = []\<rparr>] 0 (Suc 0) 0 parent sel
            = None"
      by (rule short_path_never_returns(2) [OF thr]) simp_all
    then show "buildFileChangeTree n w [\<lparr>resource = r, pathParts = []\<rparr>] 0 1 0 parent sel
            = None"
      by simp
  qed
qed

theorem builder_returns_witness:
  "well_grouped sample_paths 0 3 0
   \<and> sorted (map pathParts sample_paths)
   \<and> list_all (\<lambda>p. pathParts p \<noteq> []) sample_paths
   \<and> length sample_paths = 3
   \<and> (\<exists>n out sel1. \<forall>m \<ge> n.
         buildFileChangeTree m sample_tree_widget sample_paths 0 3 0
           (GroupParent ''g'' (Some ''/r'')) None = Some (Inr (out, sel1)))
   \<and> nestingThreshold_or_1 sample_tree_widget \<le> 1
   \<and> (\<forall>n. buildFileChangeTree n sample_tree_widget
              [\<lparr>resource = sample_resource ''g'' ''/q/c.txt'', pathParts = []\<rparr>] 0 1 0
              (GroupParent ''g'' (Some ''/r'')) None = None)"
proof -
  have g: "well_grouped sample_paths 0 3 0" by code_simp
  have so: "sorted (map pathParts sample_paths)" by code_simp
  have ne: "list_all (\<lambda>p. pathParts p \<noteq> []) sample_paths"
    by (simp add: sample_paths_def sample_path_def)
  have len: "length sample_paths = 3" by (simp add: sample_paths_def)
  have ne': "\<forall>p \<in> set sample_paths. pathParts p \<noteq> []" using ne by (simp add: list_all_iff)
  have thr: "nestingThreshold_or_1 sample_tree_widget \<le> 1"
    by (simp add: nestingThreshold_or_1_def sample_tree_widget_def sample_widget_def)
  note b = builder_returns [of sample_paths 0 3 0 sample_tree_widget
      "GroupParent ''g'' (Some ''/r'')" None "sample_resource ''g'' ''/q/c.txt''"]
  have r2: "\<exists>n out sel1. \<forall>m \<ge> n.
         buildFileChangeTree m sample_tree_widget sample_paths 0 3 0
           (GroupParent ''g'' (Some ''/r'')) None = Some (Inr (out, sel1))"
    using b [THEN conjunct2, THEN conjunct1, THEN mp, OF conjI [OF so ne']] len by simp
  show ?thesis
    using g so ne len r2 thr b [THEN conjunct1, THEN mp, OF g]
      b [THEN conjunct2, THEN conjunct2, THEN mp, OF thr]
    by (intro conjI)
qed

text \<open>
  The claim as it is written asks only that every path has a segment. The file \<open>a/x.txt\<close>
  followed by a file \<open>a\<close> meets that, and the builder does not return on the two:
  \<open>a\<close> falls into the folder made for \<open>a/x.txt\<close>, where it has no segment left.
\<close>

theorem nonempty_paths_not_enough:
  "pathParts (sample_path [''a'', ''x.txt'']) \<noteq> []
   \<and> pathParts (sample_path [''a'']) \<noteq> []
   \<and> (\<forall>n. buildFileChangeTree n sample_tree_widget
              [sample_path [''a'', ''x.txt''], sample_path [''a'']] 0 2 0
              (GroupParent ''g'' (Some ''/r'')) None = None)"
  using file_after_its_folder_never_returns by (simp add: sample_path_def)

subsection \<open>A run becomes file nodes of this level or one folder\<close>







end
